theory Spec2Isabelle
  imports Main "HOL-Library.Word" "HOL-Library.Sublist"
begin

section \<open>World creation and the deadlock watchdog of \<^verbatim>\<open>server/world/conf.go\<close>\<close>

text \<open>
  The development embeds \<^verbatim>\<open>Config.New\<close> and the watchdog goroutine it starts.
  Interfaces whose implementations live outside the file (loggers, dimensions, providers,
  generators, random sources, handlers) are datatypes with the one value the file names
  and an opaque alternative; a nil interface value or nil pointer is \<open>None\<close>.
\<close>

subsection \<open>Durations\<close>

text \<open>
  \<^verbatim>\<open>time.Duration\<close> is a count of nanoseconds in an \<^verbatim>\<open>int64\<close>. The file only
  compares durations and writes the constants below, none of which leaves the range, so
  a duration is an \<open>int\<close>; the one computed duration, \<^verbatim>\<open>time.Since\<close>, saturates
  at the ends of the range as \<^verbatim>\<open>Time.Sub\<close> does.
\<close>

type_synonym Duration = int
type_synonym Time = int

definition Second :: Duration where
  "Second = 1000000000"

definition Minute :: Duration where
  "Minute = 60 * Second"

definition maxDuration :: Duration where
  "maxDuration = 2 ^ 63 - 1"

definition minDuration :: Duration where
  "minDuration = - (2 ^ 63)"

definition time_Since :: "Time \<Rightarrow> Time \<Rightarrow> Duration" where
  "time_Since now t =
     (let d = now - t in
      if d > maxDuration then maxDuration
      else if d < minDuration then minDuration
      else d)"

subsection \<open>Collaborators and the configuration\<close>

datatype Logger = Logger nat

datatype Dimension = Overworld | OtherDimension nat

datatype Provider = NopProvider | OtherProvider nat

datatype Generator = NopGenerator | OtherGenerator nat

datatype Source = PCG "64 word" "64 word" | OtherSource nat

datatype Handler = NopHandler | OtherHandler nat

record Config =
  Log :: "Logger option"
  Dim :: "Dimension option"
  PortalDestination :: "nat option"
  Provider :: "Provider option"
  Generator :: "Generator option"
  ReadOnly :: bool
  SaveInterval :: Duration
  RandomTickSpeed :: int
  RandSource :: "Source option"
  Entities :: nat

text \<open>
  What \<^verbatim>\<open>New\<close> reads from outside its receiver: the process-wide default logger,
  the wall clock, the pointer a provider's \<^verbatim>\<open>Settings()\<close> returns and the range a
  dimension's \<^verbatim>\<open>Range()\<close> returns.
\<close>

record env =
  slog_Default :: Logger
  time_Now_UnixNano :: int
  provider_Settings :: "Provider \<Rightarrow> nat"
  dimension_Range :: "Dimension \<Rightarrow> int \<times> int"

text \<open>
  \<^verbatim>\<open>Settings\<close> is shared through a pointer: several worlds may be created over the
  same settings, and each increments its reference count atomically. The store maps a
  pointer to the settings it holds. The declaration of the counter is not among the
  sources, so its machine width is left open: the counter is a word of any length, and
  \<^verbatim>\<open>Add\<close> wraps as a Go atomic integer does.
\<close>

record 'c Settings =
  CurrentTick :: int
  ref :: 'c

type_synonym 'w store = "nat \<Rightarrow> 'w word Settings"

definition atomic_Add :: "'w::len store \<Rightarrow> nat \<Rightarrow> 'w word \<Rightarrow> 'w word \<times> 'w store" where
  "atomic_Add st p delta =
     (let v = ref (st p) + delta in (v, st(p := (st p)\<lparr>ref := v\<rparr>)))"

subsection \<open>Channels, transactions and the world\<close>

text \<open>
  A buffered channel is its buffer, oldest element first, and its capacity. A receive
  in a \<^verbatim>\<open>select\<close> with a \<^verbatim>\<open>default\<close> case takes the oldest element when
  there is one and falls to the default otherwise.
\<close>

record 'a chan =
  chanBuf :: "'a list"
  chanCap :: nat

definition make_chan :: "nat \<Rightarrow> 'a chan" where
  "make_chan n = \<lparr>chanBuf = [], chanCap = n\<rparr>"

definition try_recv :: "'a chan \<Rightarrow> ('a \<times> 'a chan) option" where
  "try_recv ch =
     (case chanBuf ch of
        [] \<Rightarrow> None
      | x # xs \<Rightarrow> Some (x, ch\<lparr>chanBuf := xs\<rparr>))"

text \<open>
  Of a transaction the file uses \<^verbatim>\<open>CallerInfo()\<close>, the lines of the stack trace
  taken when it was submitted; \<open>txChan\<close> is the identity of its completion channel.
\<close>

record transaction =
  txChan :: nat
  CallerInfo :: "string list"

record ticker =
  interval :: Duration

datatype task = TickLoop ticker | AutoSave | HandleTransactions | Watchdog

text \<open>
  The fields of \<^verbatim>\<open>World\<close> that \<^verbatim>\<open>New\<close> sets or its watchdog reads. The
  \<^verbatim>\<open>weather\<close> field is only a pointer back to the world and is left out; \<open>Name\<close>
  is what \<^verbatim>\<open>w.Name()\<close> returns.
\<close>

record World =
  scheduledUpdates :: int
  entities :: "nat \<rightharpoonup> int \<times> int"
  viewers :: "nat \<rightharpoonup> nat"
  chunks :: "int \<times> int \<rightharpoonup> nat"
  closing :: bool
  queue :: "transaction chan"
  r_rand :: "Source option"
  advance :: bool
  conf :: Config
  ra :: "int \<times> int"
  set_w :: nat
  handler :: Handler
  running :: int
  runningTx :: "transaction option"
  runningTxAt :: Time
  Name :: string

datatype error = NilPointerDereference

subsection \<open>\<^verbatim>\<open>Config.New\<close>\<close>

text \<open>Lines 64 to 85: the defaults, one \<^verbatim>\<open>if\<close> after the other.\<close>

definition withDefaults :: "env \<Rightarrow> Config \<Rightarrow> Config" where
  "withDefaults e c0 =
     (let c1 = (if Log c0 = None then c0\<lparr>Log := Some (slog_Default e)\<rparr> else c0);
          c2 = (if Dim c1 = None then c1\<lparr>Dim := Some Overworld\<rparr> else c1);
          c3 = (if Provider c2 = None then c2\<lparr>Provider := Some NopProvider\<rparr> else c2);
          c4 = (if SaveInterval c3 = 0 then c3\<lparr>SaveInterval := Minute * 10\<rparr> else c3);
          c5 = (if Generator c4 = None then c4\<lparr>Generator := Some NopGenerator\<rparr> else c4);
          c6 = (if RandomTickSpeed c5 = 0 then c5\<lparr>RandomTickSpeed := 3\<rparr> else c5);
          c7 = (if RandSource c6 = None
                then (let t = (word_of_int (time_Now_UnixNano e) :: 64 word)
                      in c6\<lparr>RandSource := Some (PCG t t)\<rparr>)
                else c6)
      in c7)"

text \<open>
  Lines 86 to 102: the settings pointer and the \<^verbatim>\<open>World\<close> literal. A method call
  on a nil interface value panics; after the defaults neither the provider nor the
  dimension is nil. \<open>nm\<close> is the name the world answers \<^verbatim>\<open>Name()\<close> with.
\<close>

definition newWorld ::
  "env \<Rightarrow> string \<Rightarrow> Config \<Rightarrow> 'w::len store \<Rightarrow> error + (World \<times> 'w store)" where
  "newWorld e nm c0 st =
     (let c = withDefaults e c0 in
      case Provider c of
        None \<Rightarrow> Inl NilPointerDereference
      | Some p \<Rightarrow>
          (let s = provider_Settings e p;
               tick = CurrentTick (st s);
               (v, st') = atomic_Add st s 1
           in case Dim c of
                None \<Rightarrow> Inl NilPointerDereference
              | Some d \<Rightarrow>
                  Inr (\<lparr>scheduledUpdates = tick,
                        entities = Map.empty,
                        viewers = Map.empty,
                        chunks = Map.empty,
                        closing = False,
                        queue = make_chan 128,
                        r_rand = RandSource c,
                        advance = (v = 1),
                        conf = c,
                        ra = dimension_Range e d,
                        set_w = s,
                        handler = NopHandler,
                        running = 0,
                        runningTx = None,
                        runningTxAt = 0,
                        Name = nm\<rparr>, st')))"

text \<open>
  Lines 104 to 160: \<^verbatim>\<open>w.running.Add(4)\<close>, then the four \<^verbatim>\<open>go\<close> statements.
  \<^verbatim>\<open>Add\<close> panics only when the counter would become negative, which adding 4 to
  the counter of a fresh world cannot do. A \<^verbatim>\<open>go\<close> statement appends the task to
  the goroutines started so far.
\<close>

definition wg_Add :: "int \<Rightarrow> World \<Rightarrow> World" where
  "wg_Add delta w = w\<lparr>running := running w + delta\<rparr>"

definition go_stmt :: "World \<times> task list \<Rightarrow> task \<Rightarrow> World \<times> task list" where
  "go_stmt s t = (fst s, snd s @ [t])"

definition startTasks :: "World \<Rightarrow> World \<times> task list" where
  "startTasks w =
     (let s0 = (wg_Add 4 w, []);
          t = \<lparr>interval = Second div 20\<rparr>;
          s1 = go_stmt s0 (TickLoop t);
          s2 = go_stmt s1 AutoSave;
          s3 = go_stmt s2 HandleTransactions;
          s4 = go_stmt s3 Watchdog
      in s4)"

text \<open>
  \<^verbatim>\<open>New\<close> up to its last statement, \<^verbatim>\<open><-w.Exec(t.tick)\<close>: the world, the
  store and the goroutines started.
\<close>

definition New ::
  "env \<Rightarrow> string \<Rightarrow> Config \<Rightarrow> 'w::len store \<Rightarrow> error + (World \<times> 'w store \<times> task list)" where
  "New e nm c st =
     (case newWorld e nm c st of
        Inl err \<Rightarrow> Inl err
      | Inr (w, st') \<Rightarrow> (let (w', gs) = startTasks w in Inr (w', st', gs)))"

definition worldOf :: "error + (World \<times> 'w store \<times> task list) \<Rightarrow> World option" where
  "worldOf r = (case r of Inl _ \<Rightarrow> None | Inr (w, _, _) \<Rightarrow> Some w)"

subsection \<open>The watchdog goroutine\<close>

text \<open>
  \<^verbatim>\<open>fmt.Sprintf\<close> with the verb \<^verbatim>\<open>%d\<close>: the decimal digits of the number,
  after a minus sign when it is negative.
\<close>

function decimal :: "nat \<Rightarrow> string" where
  "decimal n =
     (if n < 10 then [''0123456789'' ! n]
      else decimal (n div 10) @ [''0123456789'' ! (n mod 10)])"
  by pat_completeness auto
termination
  by (relation "measure (\<lambda>n. n)") auto

declare decimal.simps [simp del]

definition Sprintf_d :: "int \<Rightarrow> string" where
  "Sprintf_d i = (if i < 0 then ''-'' @ decimal (nat (- i)) else decimal (nat i))"

text \<open>
  The loop \<^verbatim>\<open>for _, trace := range xs { panicMsg += "\n" + trace }\<close>, at lines
  136 to 138 and 147 to 149.
\<close>

fun appendTraces :: "string \<Rightarrow> string list \<Rightarrow> string" where
  "appendTraces panicMsg [] = panicMsg"
| "appendTraces panicMsg (trace # rest) = appendTraces (panicMsg @ ''\<newline>'' @ trace) rest"

text \<open>
  Lines 124 to 143: the loop over the pending transactions. Each round is a
  \<^verbatim>\<open>select\<close> that receives from the queue or, when the queue is empty, takes the
  \<^verbatim>\<open>default\<close> case and sets \<^verbatim>\<open>exitLoop\<close>. The \<^verbatim>\<open>break\<close> at line 132
  stands inside the \<^verbatim>\<open>select\<close>, and in Go it leaves that \<^verbatim>\<open>select\<close> only:
  \<^verbatim>\<open>exitLoop\<close> is still false and the loop goes round again. The loop returns the
  queue, the counter \<^verbatim>\<open>no\<close> and the message. It is run against the buffer of the
  queue as it stands: no other goroutine sends while it runs. The counter counts the
  transactions received, which keeps it far from the end of the range of a Go
  \<^verbatim>\<open>int\<close>, so it is an \<open>int\<close> here.
\<close>

function drainLoop ::
  "transaction chan \<Rightarrow> int \<Rightarrow> string \<Rightarrow> transaction chan \<times> int \<times> string" where
  "drainLoop q no panicMsg =
     (case try_recv q of
        None \<Rightarrow> (q, no, panicMsg)
      | Some (pendingTx, q') \<Rightarrow>
          (let no' = no + 1 in
           if no' > 10 then drainLoop q' no' (panicMsg @ ''\<newline>...'')
           else
             (let m1 = panicMsg @ ''\<newline>\<newline>'' @ (''TX NO '' @ Sprintf_d no' @ '':'');
                  m2 = m1 @ ''\<newline>------------------ BEGIN stack trace ------------------'';
                  m3 = appendTraces m2 (CallerInfo pendingTx);
                  m4 = m3 @ ''\<newline>------------------- END stack trace -------------------''
              in drainLoop q' no' m4)))"
  by pat_completeness auto
termination
  by (relation "measure (\<lambda>(q, no, panicMsg). length (chanBuf q))")
     (auto simp add: try_recv_def split: list.splits)

declare drainLoop.simps [simp del]

text \<open>
  Lines 117 to 154: one check, made when the ticker \<^verbatim>\<open>t2\<close> fires at time \<open>now\<close>.
  It ends in a panic, carrying the message and leaving the world with the queue as the
  loop left it, or unlocks the mutex and goes back to the \<^verbatim>\<open>select\<close>.
\<close>

datatype panicValue = DeadlockDetected string | NegativeWaitGroupCounter | NilDereference

datatype checkResult = Panic panicValue World | Unlocked World

definition deadlockCheck :: "Time \<Rightarrow> World \<Rightarrow> checkResult" where
  "deadlockCheck now w =
     (if runningTx w \<noteq> None \<and> time_Since now (runningTxAt w) > 20 * Second then
        (let m0 = ''Deadlock detected in world transaction. The transaction has been running for more than 20 seconds.'';
             m1 = m0 @ ''\<newline>\<newline>WORLD NAME: '' @ Name w;
             m2 = m1 @ ''\<newline>\<newline>PENDING TRANSACTIONS:'';
             (q', no, m3) = drainLoop (queue w) 0 m2;
             m4 = m3 @ ''\<newline>\<newline>HANGING TRANSACTION:'';
             m5 = m4 @ ''\<newline>------------------ BEGIN stack trace ------------------''
         in case runningTx w of
              None \<Rightarrow> Panic NilDereference (w\<lparr>queue := q'\<rparr>)
            | Some tx \<Rightarrow>
                (let m6 = appendTraces m5 (CallerInfo tx);
                     m7 = m6 @ ''\<newline>------------------- END stack trace -------------------''
                 in Panic (DeadlockDetected m7) (w\<lparr>queue := q'\<rparr>)))
      else Unlocked w)"

text \<open>
  Lines 111 to 160: the goroutine. It waits in a \<^verbatim>\<open>select\<close> for the ticker or for
  the closing channel; the events it receives are given as a list, each with the world
  as the other goroutines have left it at that moment. On the closing channel it calls
  \<^verbatim>\<open>w.running.Done()\<close>, which panics when the counter would become negative, and
  returns. With no event left it is waiting in the \<^verbatim>\<open>select\<close>.
\<close>

definition wg_Done :: "World \<Rightarrow> World option" where
  "wg_Done w = (if running w - 1 < 0 then None else Some (wg_Add (- 1) w))"

datatype wd_event = TickerC Time World | ClosingC World

datatype wd_outcome = Panicked panicValue World | Exited World | Selecting

fun watchdog :: "wd_event list \<Rightarrow> wd_outcome" where
  "watchdog [] = Selecting"
| "watchdog (TickerC now w # evs) =
     (case deadlockCheck now w of
        Panic v w' \<Rightarrow> Panicked v w'
      | Unlocked w' \<Rightarrow> watchdog evs)"
| "watchdog (ClosingC w # evs) =
     (case wg_Done w of
        None \<Rightarrow> Panicked NegativeWaitGroupCounter w
      | Some w' \<Rightarrow> Exited w')"

text \<open>
  What the loop over the pending transactions adds to the message, and the whole
  message, written as functions of the counter, the buffer, the name and the running
  transaction; \<open>drainLoop_eq\<close> and \<open>deadlockCheck_stuck\<close> below prove that the
  code computes them.
\<close>

definition traceLines :: "string list \<Rightarrow> string" where
  "traceLines ts = concat (map (\<lambda>t. ''\<newline>'' @ t) ts)"

definition pendingBlock :: "int \<Rightarrow> transaction \<Rightarrow> string" where
  "pendingBlock no tx =
     ''\<newline>\<newline>'' @ (''TX NO '' @ Sprintf_d no @ '':'') @
     ''\<newline>------------------ BEGIN stack trace ------------------'' @
     traceLines (CallerInfo tx) @
     ''\<newline>------------------- END stack trace -------------------''"

fun pendingReport :: "int \<Rightarrow> transaction list \<Rightarrow> string" where
  "pendingReport no [] = []"
| "pendingReport no (tx # txs) =
     (if no + 1 > 10 then ''\<newline>...'' else pendingBlock (no + 1) tx) @
     pendingReport (no + 1) txs"

definition deadlockReport :: "string \<Rightarrow> transaction list \<Rightarrow> transaction \<Rightarrow> string" where
  "deadlockReport nm pending tx =
     ''Deadlock detected in world transaction. The transaction has been running for more than 20 seconds.'' @
     ''\<newline>\<newline>WORLD NAME: '' @ nm @
     ''\<newline>\<newline>PENDING TRANSACTIONS:'' @
     pendingReport 0 pending @
     ''\<newline>\<newline>HANGING TRANSACTION:'' @
     ''\<newline>------------------ BEGIN stack trace ------------------'' @
     traceLines (CallerInfo tx) @
     ''\<newline>------------------- END stack trace -------------------''"

subsection \<open>\<^verbatim>\<open>captureCallerInfo\<close> of \<^verbatim>\<open>debug.go\<close>\<close>

text \<open>
  \<^verbatim>\<open>runtime.Callers\<close> fills at most 64 program counters and returns their number
  \<open>n\<close>; with none, the result is the single line \<^verbatim>\<open>No callers found\<close>. Otherwise
  the frames the iterator yields are formatted one by one, function, file and line. The
  loop asks for a frame before it looks at \<^verbatim>\<open>more\<close>, so it formats at least one
  frame: an iterator with nothing to yield gives the zero frame.
\<close>

record Frame =
  Function :: string
  File :: string
  Line :: int

definition formatFrame :: "Frame \<Rightarrow> string" where
  "formatFrame frame = Function frame @ '' at '' @ File frame @ '':'' @ Sprintf_d (Line frame)"

fun framesLoop :: "Frame list \<Rightarrow> string list \<Rightarrow> string list" where
  "framesLoop [] result = result @ [formatFrame \<lparr>Function = [], File = [], Line = 0\<rparr>]"
| "framesLoop [frame] result = result @ [formatFrame frame]"
| "framesLoop (frame # frames) result = framesLoop frames (result @ [formatFrame frame])"

definition captureCallerInfo :: "nat \<Rightarrow> Frame list \<Rightarrow> string list" where
  "captureCallerInfo n frames =
     (if n = 0 then [''No callers found''] else framesLoop frames [])"

text \<open>What a check left behind: whether it panicked, with which message, and the world.\<close>

definition panicked :: "checkResult \<Rightarrow> bool" where
  "panicked r = (case r of Panic v w \<Rightarrow> True | Unlocked w \<Rightarrow> False)"

definition panicMessage :: "checkResult \<Rightarrow> string option" where
  "panicMessage r =
     (case r of
        Panic v w \<Rightarrow> (case v of DeadlockDetected m \<Rightarrow> Some m | _ \<Rightarrow> None)
      | Unlocked w \<Rightarrow> None)"

definition worldAfter :: "checkResult \<Rightarrow> World" where
  "worldAfter r = (case r of Panic v w \<Rightarrow> w | Unlocked w \<Rightarrow> w)"

text \<open>
  Several worlds created one after the other over one store, as several calls of
  \<^verbatim>\<open>New\<close> over shared settings are. \<open>settingsOf\<close> is the settings pointer a
  configuration resolves to: that of its provider, or of \<^verbatim>\<open>NopProvider{}\<close> when it
  has none.
\<close>

definition settingsOf :: "env \<Rightarrow> Config \<Rightarrow> nat" where
  "settingsOf e c =
     provider_Settings e (case Provider c of None \<Rightarrow> NopProvider | Some p \<Rightarrow> p)"

fun NewAll ::
  "env \<Rightarrow> (string \<times> Config) list \<Rightarrow> 'w::len store \<Rightarrow> error + (World list \<times> 'w store)" where
  "NewAll e [] st = Inr ([], st)"
| "NewAll e (nc # ncs) st =
     (case New e (fst nc) (snd nc) st of
        Inl err \<Rightarrow> Inl err
      | Inr (w, st', gs) \<Rightarrow>
          (case NewAll e ncs st' of
             Inl err \<Rightarrow> Inl err
           | Inr (ws, st'') \<Rightarrow> Inr (w # ws, st'')))"

subsection \<open>The running-task counter\<close>

text \<open>
  Modelled from the spec: the bodies of \<^verbatim>\<open>tickLoop\<close>, \<^verbatim>\<open>autoSave\<close> and
  \<^verbatim>\<open>handleTransactions\<close> are not among the sources. The spec says of the background
  tasks that ``each task decrements the counter on exit'': their exit is
  \<^verbatim>\<open>w.running.Done()\<close>. The exit of the watchdog is the code's own: the goroutine
  above, run on the closing channel. \<open>None\<close> is a panic.
\<close>

definition taskExit :: "task \<Rightarrow> World \<Rightarrow> World option" where
  "taskExit t w =
     (case t of
        Watchdog \<Rightarrow> (case watchdog [ClosingC w] of Exited w' \<Rightarrow> Some w' | _ \<Rightarrow> None)
      | _ \<Rightarrow> wg_Done w)"

fun exitAll :: "task list \<Rightarrow> World \<Rightarrow> World option" where
  "exitAll [] w = Some w"
| "exitAll (t # ts) w = (case taskExit t w of None \<Rightarrow> None | Some w' \<Rightarrow> exitAll ts w')"

subsection \<open>The last statement of \<^verbatim>\<open>New\<close>: waiting for the first tick\<close>

text \<open>A send on a buffered channel appends to the buffer, and blocks while it is full.\<close>

definition chan_send :: "'a \<Rightarrow> 'a chan \<Rightarrow> 'a chan option" where
  "chan_send x ch =
     (if length (chanBuf ch) < chanCap ch then Some (ch\<lparr>chanBuf := chanBuf ch @ [x]\<rparr>)
      else None)"

text \<open>
  Modelled from the spec: \<^verbatim>\<open>World.Exec\<close> and the executor
  \<^verbatim>\<open>handleTransactions\<close> are not among the sources. The spec gives
  ``\<^verbatim>\<open>Enqueue(transaction)\<close> \<open>\<rightarrow>\<close> handle to await later'', a queue on which
  ``when full, \<^verbatim>\<open>Enqueue\<close> blocks the producer'', and an executor that ``pulls from
  the queue in strict FIFO order and executes each transaction to completion before
  pulling the next'', where ``before execution, the Executor records the transaction (and
  start time) into the RunningTransactionRecord'' and ``after execution, it clears the
  record and signals completion''.

  The state is the world, the next fresh completion channel, the completion channels
  closed so far, the transactions executed so far, where \<^verbatim>\<open>New\<close> stands in its last
  statement \<^verbatim>\<open><-w.Exec(t.tick)\<close>, and the transaction that statement submitted. An
  action is a step of one goroutine; \<open>None\<close> says that the goroutine cannot take it now
  and stays blocked.
\<close>

datatype pc = AtExec | Awaiting nat | Returned

record sys =
  sysWorld :: World
  nextChan :: nat
  closedChans :: "nat set"
  executed :: "transaction list"
  newPc :: pc
  newTx :: "transaction option"

datatype action =
    NewExec "string list"
  | Submit "string list"
  | ExecutorBegin Time
  | ExecutorEnd
  | NewReturn

text \<open>
  Modelled from the spec: \<^verbatim>\<open>World.Exec\<close>, which is not among the sources. It
  makes a fresh completion channel, sends the transaction to the queue, blocking while
  the queue is full, and gives the channel back as the handle to wait on.
\<close>

definition Exec :: "string list \<Rightarrow> sys \<Rightarrow> (transaction \<times> sys) option" where
  "Exec info s =
     (let tx = \<lparr>txChan = nextChan s, CallerInfo = info\<rparr> in
      case chan_send tx (queue (sysWorld s)) of
        None \<Rightarrow> None
      | Some q' \<Rightarrow>
          Some (tx, s\<lparr>sysWorld := (sysWorld s)\<lparr>queue := q'\<rparr>, nextChan := Suc (nextChan s)\<rparr>))"

text \<open>
  Modelled from the spec: the steps of the executor \<^verbatim>\<open>handleTransactions\<close>, which
  is not among the sources, beside those of the submitters. \<^verbatim>\<open>New\<close> submits its
  tick and later receives from the handle, which succeeds once the channel is closed;
  any goroutine may submit; the executor takes the oldest transaction and records it with
  its start time, and when the transaction is done clears the record, closes its
  completion channel and is free for the next.
\<close>

fun step :: "action \<Rightarrow> sys \<Rightarrow> sys option" where
  "step (NewExec info) s =
     (if newPc s = AtExec then
        (case Exec info s of
           None \<Rightarrow> None
         | Some (tx, s') \<Rightarrow> Some (s'\<lparr>newPc := Awaiting (txChan tx), newTx := Some tx\<rparr>))
      else None)"
| "step (Submit info) s =
     (case Exec info s of None \<Rightarrow> None | Some (tx, s') \<Rightarrow> Some s')"
| "step (ExecutorBegin now) s =
     (case runningTx (sysWorld s) of
        Some tx \<Rightarrow> None
      | None \<Rightarrow>
          (case try_recv (queue (sysWorld s)) of
             None \<Rightarrow> None
           | Some (tx, q') \<Rightarrow>
               Some (s\<lparr>sysWorld :=
                 (sysWorld s)\<lparr>queue := q', runningTx := Some tx, runningTxAt := now\<rparr>\<rparr>)))"
| "step ExecutorEnd s =
     (case runningTx (sysWorld s) of
        None \<Rightarrow> None
      | Some tx \<Rightarrow>
          Some (s\<lparr>sysWorld := (sysWorld s)\<lparr>runningTx := None\<rparr>,
                  executed := executed s @ [tx],
                  closedChans := insert (txChan tx) (closedChans s)\<rparr>))"
| "step NewReturn s =
     (case newPc s of
        Awaiting c \<Rightarrow> (if c \<in> closedChans s then Some (s\<lparr>newPc := Returned\<rparr>) else None)
      | _ \<Rightarrow> None)"

fun run :: "action list \<Rightarrow> sys \<Rightarrow> sys option" where
  "run [] s = Some s"
| "run (a # as) s = (case step a s of None \<Rightarrow> None | Some s' \<Rightarrow> run as s')"

definition sysAtExec :: "World \<Rightarrow> sys" where
  "sysAtExec w =
     \<lparr>sysWorld = w, nextChan = 0, closedChans = {}, executed = [], newPc = AtExec,
      newTx = None\<rparr>"

text \<open>
  The invariant of the steps: the transactions in the queue, running or executed have
  completion channels made earlier and no two of them share one; a closed completion
  channel is that of an executed transaction; and \<^verbatim>\<open>New\<close> waits on the channel of
  the transaction it submitted, or has returned after that one was executed.
\<close>

definition txSet :: "sys \<Rightarrow> transaction set" where
  "txSet s =
     set (chanBuf (queue (sysWorld s))) \<union> set_option (runningTx (sysWorld s)) \<union>
     set (executed s)"

definition sysInv :: "sys \<Rightarrow> bool" where
  "sysInv s =
     ((\<forall>tx \<in> txSet s. txChan tx < nextChan s) \<and>
      inj_on txChan (txSet s) \<and>
      (\<forall>c \<in> closedChans s. c \<in> txChan ` set (executed s)) \<and>
      (case newPc s of
         AtExec \<Rightarrow> True
       | Awaiting c \<Rightarrow> (\<exists>tx \<in> txSet s. newTx s = Some tx \<and> txChan tx = c)
       | Returned \<Rightarrow> (\<exists>tx \<in> set (executed s). newTx s = Some tx)))"

subsection \<open>Example inputs\<close>

definition env0 :: env where
  "env0 = \<lparr>slog_Default = Logger 0,
           time_Now_UnixNano = 1700000000000000000,
           provider_Settings = (\<lambda>p. case p of NopProvider \<Rightarrow> 0 | OtherProvider n \<Rightarrow> Suc n),
           dimension_Range = (\<lambda>d. (- 64, 319))\<rparr>"

definition zeroConfig :: Config where
  "zeroConfig = \<lparr>Log = None, Dim = None, PortalDestination = None, Provider = None,
                 Generator = None, ReadOnly = False, SaveInterval = 0, RandomTickSpeed = 0,
                 RandSource = None, Entities = 0\<rparr>"

definition store0 :: "32 store" where
  "store0 = (\<lambda>p. \<lparr>CurrentTick = 0, ref = 0\<rparr>)"

definition exampleWorld :: World where
  "exampleWorld =
     \<lparr>scheduledUpdates = 0, entities = Map.empty, viewers = Map.empty, chunks = Map.empty,
      closing = False, queue = make_chan 128, r_rand = None, advance = True,
      conf = zeroConfig, ra = (- 64, 319), set_w = 0, handler = NopHandler, running = 4,
      runningTx = None, runningTxAt = 0, Name = ''World''\<rparr>"

definition exampleTx :: "nat \<Rightarrow> transaction" where
  "exampleTx n =
     \<lparr>txChan = n,
      CallerInfo = captureCallerInfo 2
        [\<lparr>Function = ''f'' @ decimal n, File = ''world.go'', Line = 1\<rparr>,
         \<lparr>Function = ''g'', File = ''main.go'', Line = 2\<rparr>]\<rparr>"

text \<open>
  A world whose executor has been running \<open>exampleTx 0\<close> since time 5 (in nanoseconds),
  with \<open>n\<close> transactions waiting in the queue.
\<close>

definition stuckWorld :: "nat \<Rightarrow> World" where
  "stuckWorld n =
     exampleWorld\<lparr>queue := \<lparr>chanBuf = map exampleTx [1..<Suc n], chanCap = 128\<rparr>,
                  runningTx := Some (exampleTx 0), runningTxAt := 5\<rparr>"

section \<open>Properties of \<^verbatim>\<open>Config.New\<close>\<close>

lemma withDefaults_fields:
  "Log (withDefaults e c) = Some (case Log c of None \<Rightarrow> slog_Default e | Some l \<Rightarrow> l)"
  "Dim (withDefaults e c) = Some (case Dim c of None \<Rightarrow> Overworld | Some d \<Rightarrow> d)"
  "Provider (withDefaults e c) = Some (case Provider c of None \<Rightarrow> NopProvider | Some p \<Rightarrow> p)"
  "Generator (withDefaults e c) = Some (case Generator c of None \<Rightarrow> NopGenerator | Some g \<Rightarrow> g)"
  "SaveInterval (withDefaults e c) = (if SaveInterval c = 0 then Minute * 10 else SaveInterval c)"
  "RandomTickSpeed (withDefaults e c) = (if RandomTickSpeed c = 0 then 3 else RandomTickSpeed c)"
  by (simp_all add: withDefaults_def Let_def split: option.split)

lemma newWorld_returns:
  "newWorld e nm c st =
     Inr (\<lparr>scheduledUpdates = CurrentTick (st (provider_Settings e
              (case Provider c of None \<Rightarrow> NopProvider | Some p \<Rightarrow> p))),
           entities = Map.empty, viewers = Map.empty, chunks = Map.empty,
           closing = False, queue = make_chan 128,
           r_rand = RandSource (withDefaults e c),
           advance = (fst (atomic_Add st (provider_Settings e
              (case Provider c of None \<Rightarrow> NopProvider | Some p \<Rightarrow> p)) 1) = 1),
           conf = withDefaults e c,
           ra = dimension_Range e (case Dim c of None \<Rightarrow> Overworld | Some d \<Rightarrow> d),
           set_w = provider_Settings e (case Provider c of None \<Rightarrow> NopProvider | Some p \<Rightarrow> p),
           handler = NopHandler, running = 0, runningTx = None, runningTxAt = 0, Name = nm\<rparr>,
          snd (atomic_Add st (provider_Settings e
              (case Provider c of None \<Rightarrow> NopProvider | Some p \<Rightarrow> p)) 1))"
  by (simp add: newWorld_def Let_def withDefaults_fields split_beta)

lemma startTasks_eq:
  "startTasks w =
     (w\<lparr>running := running w + 4\<rparr>,
      [TickLoop \<lparr>interval = Second div 20\<rparr>, AutoSave, HandleTransactions, Watchdog])"
  by (simp add: startTasks_def go_stmt_def wg_Add_def Let_def)

lemma New_returns:
  "New e nm c st =
     Inr ((fst (projr (newWorld e nm c st)))\<lparr>running := 4\<rparr>,
          snd (projr (newWorld e nm c st)),
          [TickLoop \<lparr>interval = Second div 20\<rparr>, AutoSave, HandleTransactions, Watchdog])"
  by (simp add: New_def newWorld_returns startTasks_eq)


text \<open>
  C3 (as stated, refuted): a configured \<open>RandomTickSpeed\<close> of zero does not stay zero.
  For the all-zero \<^verbatim>\<open>Config{}\<close> the world \<^verbatim>\<open>New\<close> creates has the speed 3.
\<close>

theorem New_RandomTickSpeed_zero_counterexample:
  "RandomTickSpeed zeroConfig = 0 \<and>
   map_option (RandomTickSpeed \<circ> conf) (worldOf (New env0 ''overworld'' zeroConfig store0))
     = Some 3"
  by (simp add: New_returns newWorld_returns worldOf_def withDefaults_fields zeroConfig_def)

text \<open>
  C3 (amended): \<^verbatim>\<open>New\<close> always returns a world; its effective \<open>RandomTickSpeed\<close>
  is the default 3 when the configured speed is zero and the configured speed otherwise.
  So the effective speed is zero or negative (random ticking off) exactly when the
  configured speed is negative, and a negative speed is kept as it is.
\<close>

theorem New_RandomTickSpeed:
  "\<exists>w st' gs. New e nm c st = Inr (w, st', gs) \<and>
     RandomTickSpeed (conf w) = (if RandomTickSpeed c = 0 then 3 else RandomTickSpeed c) \<and>
     (RandomTickSpeed (conf w) \<le> 0) = (RandomTickSpeed c < 0)"
  by (auto simp add: New_returns newWorld_returns withDefaults_fields)

text \<open>
  C5: for every configuration, the transaction queue of the world \<^verbatim>\<open>New\<close> creates
  is a channel of capacity exactly 128, created empty; a receive from it takes the oldest
  element of the buffer.
\<close>

theorem New_queue_capacity:
  "\<exists>w st' gs. New e nm c st = Inr (w, st', gs) \<and>
     chanCap (queue w) = 128 \<and> chanBuf (queue w) = [] \<and>
     try_recv ((queue w)\<lparr>chanBuf := x # xs\<rparr>) = Some (x, (queue w)\<lparr>chanBuf := xs\<rparr>)"
  by (simp add: New_returns newWorld_returns make_chan_def try_recv_def)

text \<open>
  C6: \<^verbatim>\<open>New\<close> always returns a world, and in its configuration no collaborator is
  nil: a nil provider has become \<^verbatim>\<open>NopProvider{}\<close>, a nil generator
  \<^verbatim>\<open>NopGenerator{}\<close>, a nil dimension \<^verbatim>\<open>Overworld\<close> and a nil logger
  \<^verbatim>\<open>slog.Default()\<close>; a collaborator that was given is kept.
\<close>

theorem New_defaults_collaborators:
  "\<exists>w st' gs. New e nm c st = Inr (w, st', gs) \<and>
     (Provider c = None \<longrightarrow> Provider (conf w) = Some NopProvider) \<and>
     (Generator c = None \<longrightarrow> Generator (conf w) = Some NopGenerator) \<and>
     (Dim c = None \<longrightarrow> Dim (conf w) = Some Overworld) \<and>
     (Log c = None \<longrightarrow> Log (conf w) = Some (slog_Default e)) \<and>
     (\<forall>p. Provider c = Some p \<longrightarrow> Provider (conf w) = Some p) \<and>
     (\<forall>g. Generator c = Some g \<longrightarrow> Generator (conf w) = Some g) \<and>
     (\<forall>d. Dim c = Some d \<longrightarrow> Dim (conf w) = Some d) \<and>
     (\<forall>l. Log c = Some l \<longrightarrow> Log (conf w) = Some l) \<and>
     Provider (conf w) \<noteq> None \<and> Generator (conf w) \<noteq> None \<and>
     Dim (conf w) \<noteq> None \<and> Log (conf w) \<noteq> None"
  by (simp add: New_returns newWorld_returns withDefaults_fields)

theorem New_defaults_collaborators_witness:
  "\<exists>w st' gs. New env0 ''overworld'' zeroConfig store0 = Inr (w, st', gs) \<and>
     Provider zeroConfig = None \<and> Provider (conf w) = Some NopProvider \<and>
     Generator zeroConfig = None \<and> Generator (conf w) = Some NopGenerator \<and>
     Dim zeroConfig = None \<and> Dim (conf w) = Some Overworld \<and>
     Log zeroConfig = None \<and> Log (conf w) = Some (Logger 0)"
  using New_defaults_collaborators [of env0 "''overworld''" zeroConfig store0]
  by (auto simp add: zeroConfig_def env0_def)

text \<open>
  C7: \<^verbatim>\<open>New\<close> always returns a world; a \<open>SaveInterval\<close> of 0 has become ten
  minutes (600000000000 nanoseconds), and any other interval, a negative one in
  particular, is unchanged.
\<close>

theorem New_SaveInterval:
  "\<exists>w st' gs. New e nm c st = Inr (w, st', gs) \<and>
     SaveInterval (conf w) = (if SaveInterval c = 0 then 10 * Minute else SaveInterval c) \<and>
     10 * Minute = (600000000000 :: int)"
  by (simp add: New_returns newWorld_returns withDefaults_fields Minute_def Second_def)

lemma New_advance:
  fixes st :: "'w::len store"
  shows "\<exists>w st' gs. New e nm c st = Inr (w, st', gs) \<and>
     set_w w = settingsOf e c \<and>
     st' = st(settingsOf e c := (st (settingsOf e c))\<lparr>ref := ref (st (settingsOf e c)) + 1\<rparr>) \<and>
     advance w = (ref (st' (settingsOf e c)) = 1) \<and>
     advance w = (ref (st (settingsOf e c)) = 0)"
  by (simp add: New_returns newWorld_returns atomic_Add_def Let_def settingsOf_def)

lemma NewAll_advance:
  fixes st :: "'w::len store"
  assumes "list_all (\<lambda>nc. settingsOf e (snd nc) = s) ncs"
  shows "\<exists>ws st'. NewAll e ncs st = Inr (ws, st') \<and>
           map advance ws = map (\<lambda>i. ref (st s) + of_nat i = 0) [0..<length ncs] \<and>
           ref (st' s) = ref (st s) + of_nat (length ncs)"
  using assms
proof (induction ncs arbitrary: st)
  case Nil
  then show ?case by simp
next
  case (Cons nc ncs)
  obtain w st1 gs where n: "New e (fst nc) (snd nc) st = Inr (w, st1, gs)"
    and a: "advance w = (ref (st s) = 0)"
    and s1: "st1 = st(s := (st s)\<lparr>ref := ref (st s) + 1\<rparr>)"
    using New_advance [of e "fst nc" "snd nc" st] Cons.prems by auto
  from Cons.prems have "list_all (\<lambda>nc. settingsOf e (snd nc) = s) ncs" by simp
  from Cons.IH [OF this, of st1] obtain ws st' where
    r: "NewAll e ncs st1 = Inr (ws, st')"
    and m: "map advance ws = map (\<lambda>i. ref (st1 s) + of_nat i = 0) [0..<length ncs]"
    and f: "ref (st' s) = ref (st1 s) + of_nat (length ncs)" by blast
  have "map (\<lambda>i. ref (st s) + of_nat i = 0) [0..<length (nc # ncs)]
      = (ref (st s) = 0) # map (\<lambda>i. ref (st s) + of_nat (Suc i) = 0) [0..<length ncs]"
    by (simp add: upt_conv_Cons map_Suc_upt [symmetric] del: upt_Suc)
  with n a s1 r m f show ?case by (simp add: ac_simps del: upt_Suc)
qed

lemma word_of_nat_small_nonzero:
  "0 < i \<Longrightarrow> i < 2 ^ LENGTH('w::len) \<Longrightarrow> (of_nat i :: 'w word) \<noteq> 0"
  by (simp add: word_of_nat_eq_0_iff dvd_def) (metis  nat_dvd_not_less dvd_def)

text \<open>
  C8: \<^verbatim>\<open>New\<close> always returns a world, and that world is the advancing instance
  exactly when its atomic increment of the reference count in the provider's settings
  returns 1, which is exactly when the count was 0 before: it is the first to increment
  the count from 0. When worlds are created one after the other over the same settings,
  starting from a count of 0, the first is advancing and every later one is passive, for
  as many instances as the counter can count (fewer than \<open>2 ^ LENGTH('w)\<close> later ones).
\<close>

theorem New_advance_iff_first:
  fixes st :: "'w::len store"
  shows "(\<exists>w st' gs. New e nm c st = Inr (w, st', gs) \<and>
            ref (st' (set_w w)) = ref (st (set_w w)) + 1 \<and>
            advance w = (ref (st' (set_w w)) = 1) \<and>
            advance w = (ref (st (set_w w)) = 0)) \<and>
         (list_all (\<lambda>nc. settingsOf e (snd nc) = settingsOf e c) ncs \<and>
          ref (st (settingsOf e c)) = 0 \<and> length ncs < 2 ^ LENGTH('w) \<longrightarrow>
            (\<exists>w ws st'. NewAll e ((nm, c) # ncs) st = Inr (w # ws, st') \<and>
               advance w \<and> list_all (\<lambda>w'. \<not> advance w') ws \<and> length ws = length ncs))"
proof (intro conjI impI)
  show "\<exists>w st' gs. New e nm c st = Inr (w, st', gs) \<and>
            ref (st' (set_w w)) = ref (st (set_w w)) + 1 \<and>
            advance w = (ref (st' (set_w w)) = 1) \<and>
            advance w = (ref (st (set_w w)) = 0)"
    using New_advance [of e nm c st] by auto
next
  assume h: "list_all (\<lambda>nc. settingsOf e (snd nc) = settingsOf e c) ncs \<and>
          ref (st (settingsOf e c)) = 0 \<and> length ncs < 2 ^ LENGTH('w)"
  let ?s = "settingsOf e c"
  from h have "list_all (\<lambda>nc. settingsOf e (snd nc) = ?s) ((nm, c) # ncs)" by simp
  from NewAll_advance [OF this, of st] obtain ws0 st' where
    r: "NewAll e ((nm, c) # ncs) st = Inr (ws0, st')"
    and m: "map advance ws0 = map (\<lambda>i. ref (st ?s) + of_nat i = 0) [0..<length ((nm, c) # ncs)]"
    by blast
  from m have len: "length ws0 = Suc (length ncs)"
    by (metis length_map length_upt diff_zero length_Cons)
  then obtain w ws where ws0: "ws0 = w # ws" by (cases ws0) auto
  have adv: "\<And>i. i < Suc (length ncs) \<Longrightarrow> advance (ws0 ! i) = ((of_nat i :: 'w word) = 0)"
  proof -
    fix i assume i: "i < Suc (length ncs)"
    have "advance (ws0 ! i) = (map advance ws0) ! i" using i len by simp
    also have "\<dots> = (ref (st ?s) + of_nat i = 0)" using i by (simp only: m) (simp del: upt_Suc)
    finally show "advance (ws0 ! i) = ((of_nat i :: 'w word) = 0)" using h by simp
  qed
  have "advance w" using adv [of 0] ws0 by simp
  moreover have "list_all (\<lambda>w'. \<not> advance w') ws"
  proof -
    have "\<And>j. j < length ws \<Longrightarrow> \<not> advance (ws ! j)"
    proof -
      fix j assume j: "j < length ws"
      then have "Suc j < Suc (length ncs)" using len ws0 by simp
      from adv [OF this] have "advance (ws ! j) = ((of_nat (Suc j) :: 'w word) = 0)"
        using ws0 by simp
      moreover have "(of_nat (Suc j) :: 'w word) \<noteq> 0"
        using j len ws0 h by (intro word_of_nat_small_nonzero) auto
      ultimately show "\<not> advance (ws ! j)" by simp
    qed
    then show ?thesis by (simp add: list_all_length)
  qed
  ultimately show "\<exists>w ws st'. NewAll e ((nm, c) # ncs) st = Inr (w # ws, st') \<and>
               advance w \<and> list_all (\<lambda>w'. \<not> advance w') ws \<and> length ws = length ncs"
    using r ws0 len by auto
qed

theorem New_advance_iff_first_witness:
  "\<exists>w ws st'. NewAll env0 [(''a'', zeroConfig), (''b'', zeroConfig), (''c'', zeroConfig)] store0
       = Inr (w # ws, st') \<and> advance w \<and> list_all (\<lambda>w'. \<not> advance w') ws \<and>
       length ws = length [(''b'', zeroConfig), (''c'', zeroConfig)]"
proof -
  have h: "list_all (\<lambda>nc. settingsOf env0 (snd nc) = settingsOf env0 zeroConfig)
             [(''b'', zeroConfig), (''c'', zeroConfig)] \<and>
           ref (store0 (settingsOf env0 zeroConfig)) = 0 \<and>
           length [(''b'', zeroConfig), (''c'', zeroConfig)] < 2 ^ LENGTH(32)"
    by (simp add: store0_def)
  show ?thesis
    using New_advance_iff_first [of env0 "''a''" zeroConfig store0
        "[(''b'', zeroConfig), (''c'', zeroConfig)]"] h
    by blast
qed

section \<open>Properties of the watchdog\<close>

lemma appendTraces_eq: "appendTraces m ts = m @ traceLines ts"
  by (induction ts arbitrary: m) (simp_all add: traceLines_def)

lemma drainLoop_eq:
  "drainLoop q no m =
     (q\<lparr>chanBuf := []\<rparr>, no + int (length (chanBuf q)), m @ pendingReport no (chanBuf q))"
proof (induction "chanBuf q" arbitrary: q no m)
  case Nil
  then have "try_recv q = None" by (simp add: try_recv_def)
  with Nil [symmetric] show ?case by (subst drainLoop.simps) simp
next
  case (Cons tx txs)
  from Cons.hyps(2) [symmetric]
  have r: "try_recv q = Some (tx, q\<lparr>chanBuf := txs\<rparr>)" by (simp add: try_recv_def)
  have ih: "\<And>n m'. drainLoop (q\<lparr>chanBuf := txs\<rparr>) n m' =
      (q\<lparr>chanBuf := []\<rparr>, n + int (length txs), m' @ pendingReport n txs)"
    using Cons.hyps(1) [of "q\<lparr>chanBuf := txs\<rparr>"] by simp
  show ?case
    by (subst drainLoop.simps)
       (simp add: r ih Let_def appendTraces_eq pendingBlock_def Cons.hyps(2) [symmetric])
qed

lemma pendingReport_append:
  "pendingReport no (xs @ ys) = pendingReport no xs @ pendingReport (no + int (length xs)) ys"
  by (induction xs arbitrary: no) (simp_all add: add.assoc)

lemma pendingReport_dots:
  "10 \<le> no \<Longrightarrow> pendingReport no xs = concat (replicate (length xs) ''\<newline>...'')"
  by (induction xs arbitrary: no) simp_all


lemma time_Since_threshold:
  "(20 * Second < time_Since now t) = (20000000000 < now - t)"
  by (simp add: time_Since_def Let_def Second_def maxDuration_def minDuration_def)

lemma deadlockCheck_stuck:
  assumes "runningTx w = Some tx" and "20 * Second < time_Since now (runningTxAt w)"
  shows "deadlockCheck now w =
     Panic (DeadlockDetected (deadlockReport (Name w) (chanBuf (queue w)) tx))
       (w\<lparr>queue := (queue w)\<lparr>chanBuf := []\<rparr>\<rparr>)"
  using assms
  by (simp add: deadlockCheck_def drainLoop_eq appendTraces_eq Let_def deadlockReport_def)

lemma deadlockCheck_not_stuck:
  assumes "\<not> (runningTx w \<noteq> None \<and> 20 * Second < time_Since now (runningTxAt w))"
  shows "deadlockCheck now w = Unlocked w"
  unfolding deadlockCheck_def using assms by (rule if_not_P)

lemma deadlockCheck_Panic_iff:
  "(\<exists>m w'. deadlockCheck now w = Panic (DeadlockDetected m) w') =
   (runningTx w \<noteq> None \<and> 20 * Second < time_Since now (runningTxAt w))"
proof (cases "runningTx w \<noteq> None \<and> 20 * Second < time_Since now (runningTxAt w)")
  case True
  then obtain tx where "runningTx w = Some tx" by auto
  with True show ?thesis using deadlockCheck_stuck [of w tx now] by blast
next
  case False
  then show ?thesis using deadlockCheck_not_stuck [of w now] by simp
qed

lemma watchdog_fires_iff_trace:
  "(\<exists>m w'. watchdog evs = Panicked (DeadlockDetected m) w') =
   (\<exists>pre now w post. evs = pre @ TickerC now w # post \<and> (\<forall>w'. ClosingC w' \<notin> set pre) \<and>
      runningTx w \<noteq> None \<and> 20 * Second < time_Since now (runningTxAt w))"
  (is "?L evs = ?R evs")
proof (induction evs)
  case Nil
  show ?case by simp
next
  case (Cons ev evs)
  show ?case
  proof (cases ev)
    case (ClosingC w)
    have "\<not> ?L (ev # evs)" using ClosingC by (simp split: option.split)
    moreover have "\<not> ?R (ev # evs)"
    proof
      assume "?R (ev # evs)"
      then obtain pre now w1 post where d: "ev # evs = pre @ TickerC now w1 # post"
        and n: "\<forall>w'. ClosingC w' \<notin> set pre" by blast
      show False
      proof (cases pre)
        case Nil
        with d ClosingC show False by simp
      next
        case (Cons p ps)
        with d ClosingC have "ClosingC w \<in> set pre" by simp
        with n show False by blast
      qed
    qed
    ultimately show ?thesis by blast
  next
    case (TickerC now w)
    show ?thesis
    proof (cases "runningTx w \<noteq> None \<and> 20 * Second < time_Since now (runningTxAt w)")
      case True
      then obtain m w' where p: "deadlockCheck now w = Panic (DeadlockDetected m) w'"
        using deadlockCheck_Panic_iff [of now w] by blast
      with TickerC have "?L (ev # evs)" by simp
      moreover have "ev # evs = [] @ TickerC now w # evs" using TickerC by simp
      then have "?R (ev # evs)" using True by (metis empty_iff list.set(1))
      ultimately show ?thesis by blast
    next
      case False
      then have u: "deadlockCheck now w = Unlocked w" by (rule deadlockCheck_not_stuck)
      then have l: "?L (ev # evs) = ?L evs" using TickerC by simp
      have "?R (ev # evs) = ?R evs"
      proof
        assume "?R (ev # evs)"
        then obtain pre now1 w1 post where d: "ev # evs = pre @ TickerC now1 w1 # post"
          and n: "\<forall>w'. ClosingC w' \<notin> set pre"
          and s: "runningTx w1 \<noteq> None \<and> 20 * Second < time_Since now1 (runningTxAt w1)" by blast
        show "?R evs"
        proof (cases pre)
          case Nil
          with d TickerC s False show ?thesis by simp
        next
          case (Cons p ps)
          with d have "evs = ps @ TickerC now1 w1 # post" by simp
          moreover from n Cons have "\<forall>w'. ClosingC w' \<notin> set ps" by simp
          ultimately show ?thesis using s by blast
        qed
      next
        assume "?R evs"
        then obtain pre now1 w1 post where d: "evs = pre @ TickerC now1 w1 # post"
          and n: "\<forall>w'. ClosingC w' \<notin> set pre"
          and s: "runningTx w1 \<noteq> None \<and> 20 * Second < time_Since now1 (runningTxAt w1)" by blast
        from d have "ev # evs = (ev # pre) @ TickerC now1 w1 # post" by simp
        moreover from n TickerC have "\<forall>w'. ClosingC w' \<notin> set (ev # pre)" by simp
        ultimately show "?R (ev # evs)" using s by blast
      qed
      with l Cons.IH show ?thesis by simp
    qed
  qed
qed

lemma traceLines_sublist: "t \<in> set ts \<Longrightarrow> sublist t (traceLines ts)"
proof (induction ts)
  case Nil
  then show ?case by simp
next
  case (Cons a ts)
  show ?case
  proof (cases "t = a")
    case True
    have "sublist a (''\<newline>'' @ a @ traceLines ts)" by (rule sublist_appendI)
    with True show ?thesis by (simp add: traceLines_def)
  next
    case False
    with Cons have "sublist t (traceLines ts)" by simp
    then have "sublist t ((''\<newline>'' @ a) @ traceLines ts)"
      by (metis sublist_append_leftI sublist_order.order_trans)
    then show ?thesis by (simp add: traceLines_def)
  qed
qed

lemma sublist_in_append:
  "sublist t x \<Longrightarrow> sublist t (a @ x @ b)"
  by (metis sublist_appendI sublist_order.order_trans)

lemma pendingBlock_sublist:
  "t \<in> set (CallerInfo p) \<Longrightarrow> sublist t (pendingBlock no p)"
  unfolding pendingBlock_def
  using sublist_in_append [OF traceLines_sublist,
      of t "CallerInfo p"
         "''\<newline>\<newline>'' @ (''TX NO '' @ Sprintf_d no @ '':'') @ ''\<newline>------------------ BEGIN stack trace ------------------''"
         "''\<newline>------------------- END stack trace -------------------''"]
  by simp

lemma pendingReport_sublist:
  "p \<in> set (take (nat (10 - no)) txs) \<Longrightarrow> t \<in> set (CallerInfo p) \<Longrightarrow>
   sublist t (pendingReport no txs)"
proof (induction txs arbitrary: no)
  case Nil
  then show ?case by simp
next
  case (Cons a txs)
  from Cons.prems(1) have lt: "no < 10" by (cases "no < 10") auto
  then obtain k where k: "nat (10 - no) = Suc k" and k': "nat (10 - (no + 1)) = k"
    by (cases "nat (10 - no)") auto
  show ?case
  proof (cases "p = a")
    case True
    with Cons.prems(2) have "sublist t (pendingBlock (no + 1) a)" by (simp add: pendingBlock_sublist)
    then have "sublist t (pendingBlock (no + 1) a @ pendingReport (no + 1) txs)"
      using sublist_in_append [of t "pendingBlock (no + 1) a" "[]"] by simp
    with lt show ?thesis by simp
  next
    case False
    with Cons.prems(1) k k' have "p \<in> set (take (nat (10 - (no + 1))) txs)" by simp
    from Cons.IH [OF this Cons.prems(2)]
    have "sublist t (pendingBlock (no + 1) a @ pendingReport (no + 1) txs)"
      using sublist_in_append [of t "pendingReport (no + 1) txs" "pendingBlock (no + 1) a" "[]"] by simp
    with lt show ?thesis by simp
  qed
qed

lemma stuckWorld_fields:
  "runningTx (stuckWorld n) = Some (exampleTx 0)"
  "runningTxAt (stuckWorld n) = 5"
  "Name (stuckWorld n) = ''World''"
  "chanBuf (queue (stuckWorld n)) = map exampleTx [1..<Suc n]"
  by (simp_all add: stuckWorld_def exampleWorld_def)

lemma decimal_digit: "n < 10 \<Longrightarrow> decimal n = [''0123456789'' ! n]"
  by (subst decimal.simps) simp

lemma exampleTx_CallerInfo:
  "CallerInfo (exampleTx n) = [''f'' @ decimal n @ '' at world.go:1'', ''g at main.go:2'']"
  by (simp add: exampleTx_def captureCallerInfo_def formatFrame_def Sprintf_d_def decimal_digit)


lemma decimal_0: "decimal 0 = ''0''"
  by (simp add: decimal_digit)

lemma decimal_1: "decimal (Suc 0) = ''1''"
  by (simp add: decimal_digit)

lemma pendingReport_ellipsis:
  assumes "10 < length txs"
  shows "sublist ''\<newline>...'' (pendingReport 0 txs)"
proof -
  from assms obtain x xs where d: "drop 10 txs = x # xs" by (cases "drop 10 txs") auto
  from assms have l: "int (length (take 10 txs)) = 10" by simp
  have "pendingReport 0 txs = pendingReport 0 (take 10 txs @ drop 10 txs)" by simp
  also have "\<dots> = pendingReport 0 (take 10 txs) @ pendingReport 10 (x # xs)"
    by (simp only: pendingReport_append l d) simp
  also have "pendingReport 10 (x # xs) = ''\<newline>...'' @ pendingReport 11 xs" by simp
  finally have "pendingReport 0 txs =
      pendingReport 0 (take 10 txs) @ ''\<newline>...'' @ pendingReport 11 xs" .
  then show ?thesis by (simp only: sublist_appendI)
qed

lemma deadlockReport_pending:
  "sublist t (pendingReport 0 pending) \<Longrightarrow> sublist t (deadlockReport nm pending tx)"
  unfolding deadlockReport_def
  using sublist_in_append [of t "pendingReport 0 pending"
      "''Deadlock detected in world transaction. The transaction has been running for more than 20 seconds.'' @
       ''\<newline>\<newline>WORLD NAME: '' @ nm @ ''\<newline>\<newline>PENDING TRANSACTIONS:''"
      "''\<newline>\<newline>HANGING TRANSACTION:'' @
       ''\<newline>------------------ BEGIN stack trace ------------------'' @
       traceLines (CallerInfo tx) @
       ''\<newline>------------------- END stack trace -------------------''"]
  by simp

lemma pendingReport_first_ten:
  assumes "length rest = length txs - 10"
  shows "pendingReport 0 (take 10 txs @ rest) = pendingReport 0 txs"
proof (cases "length txs \<le> 10")
  case True
  with assms show ?thesis by simp
next
  case False
  then have l: "int (length (take 10 txs)) = 10" by simp
  have "pendingReport 0 txs = pendingReport 0 (take 10 txs @ drop 10 txs)" by simp
  also have "\<dots> = pendingReport 0 (take 10 txs) @ pendingReport 10 (drop 10 txs)"
    by (simp only: pendingReport_append l) simp
  also have "pendingReport 10 (drop 10 txs) = concat (replicate (length (drop 10 txs)) ''\<newline>...'')"
    by (rule pendingReport_dots) simp
  also have "\<dots> = pendingReport 10 rest"
    using assms by (simp add: pendingReport_dots)
  finally show ?thesis by (simp only: pendingReport_append l) simp
qed

lemma sublist_in_append3: "sublist t (a @ t @ b)"
  by (rule sublist_appendI)

lemma stuckWorld_1_report:
  "deadlockReport (Name (stuckWorld 1)) (chanBuf (queue (stuckWorld 1))) (exampleTx 0) =
   ''Deadlock detected in world transaction. The transaction has been running for more than 20 seconds.\<newline>\<newline>WORLD NAME: World\<newline>\<newline>PENDING TRANSACTIONS:\<newline>\<newline>TX NO 1:\<newline>------------------ BEGIN stack trace ------------------\<newline>f1 at world.go:1\<newline>g at main.go:2\<newline>------------------- END stack trace -------------------\<newline>\<newline>HANGING TRANSACTION:\<newline>------------------ BEGIN stack trace ------------------\<newline>f0 at world.go:1\<newline>g at main.go:2\<newline>------------------- END stack trace -------------------''"
  by (simp add: stuckWorld_fields deadlockReport_def pendingBlock_def traceLines_def
        Sprintf_d_def exampleTx_CallerInfo decimal_0 decimal_1)

lemma deadlockCheck_threshold_examples:
  "deadlockCheck (5 + 20 * Second) (stuckWorld 3) = Unlocked (stuckWorld 3)"
  "panicked (deadlockCheck (5 + 20 * Second + 1) (stuckWorld 3))"
proof -
  have "\<not> (runningTx (stuckWorld 3) \<noteq> None \<and>
      20 * Second < time_Since (5 + 20 * Second) (runningTxAt (stuckWorld 3)))"
    by (simp only: time_Since_threshold) (simp add: stuckWorld_fields Second_def)
  then show "deadlockCheck (5 + 20 * Second) (stuckWorld 3) = Unlocked (stuckWorld 3)"
    by (rule deadlockCheck_not_stuck)
  have "20 * Second < time_Since (5 + 20 * Second + 1) (runningTxAt (stuckWorld 3))"
    by (simp only: time_Since_threshold) (simp add: stuckWorld_fields Second_def)
  from deadlockCheck_stuck [OF stuckWorld_fields(1) this]
  show "panicked (deadlockCheck (5 + 20 * Second + 1) (stuckWorld 3))"
    by (simp add: panicked_def)
qed

text \<open>
  C4: one check of the watchdog ends in its deadlock panic exactly when a transaction is
  recorded as running and more than 20 seconds (20000000000 nanoseconds, strictly) have
  passed since its recorded start. The goroutine as a whole ends in the deadlock panic
  exactly when, before it has seen the closing channel, its ticker fires at a moment at
  which that holds. In particular a check with no transaction recorded never panics,
  however much time has passed.
\<close>

theorem watchdog_fires_iff:
  "((\<exists>m w'. deadlockCheck now w = Panic (DeadlockDetected m) w') =
      (runningTx w \<noteq> None \<and> 20000000000 < now - runningTxAt w)) \<and>
   ((\<exists>m w'. watchdog evs = Panicked (DeadlockDetected m) w') =
      (\<exists>pre t w1 post. evs = pre @ TickerC t w1 # post \<and> (\<forall>w'. ClosingC w' \<notin> set pre) \<and>
         runningTx w1 \<noteq> None \<and> 20000000000 < t - runningTxAt w1)) \<and>
   deadlockCheck now (w\<lparr>runningTx := None\<rparr>) = Unlocked (w\<lparr>runningTx := None\<rparr>)"
proof (intro conjI)
  show "(\<exists>m w'. deadlockCheck now w = Panic (DeadlockDetected m) w') =
      (runningTx w \<noteq> None \<and> 20000000000 < now - runningTxAt w)"
    by (simp only: deadlockCheck_Panic_iff time_Since_threshold)
  show "(\<exists>m w'. watchdog evs = Panicked (DeadlockDetected m) w') =
      (\<exists>pre t w1 post. evs = pre @ TickerC t w1 # post \<and> (\<forall>w'. ClosingC w' \<notin> set pre) \<and>
         runningTx w1 \<noteq> None \<and> 20000000000 < t - runningTxAt w1)"
    by (simp only: watchdog_fires_iff_trace time_Since_threshold)
  show "deadlockCheck now (w\<lparr>runningTx := None\<rparr>) = Unlocked (w\<lparr>runningTx := None\<rparr>)"
    by (rule deadlockCheck_not_stuck) simp
qed

text \<open>
  C1 (as stated, refuted): with a transaction stuck and eleven transactions waiting, the
  check panics and leaves the queue empty: the eleventh has been dequeued as well, one
  more than the ten the claim allows.
\<close>

theorem drain_eleventh_counterexample:
  "length (chanBuf (queue (stuckWorld 11))) = 11 \<and>
   panicked (deadlockCheck (5 + 21 * Second) (stuckWorld 11)) \<and>
   chanBuf (queue (worldAfter (deadlockCheck (5 + 21 * Second) (stuckWorld 11)))) = []"
proof -
  have "20 * Second < time_Since (5 + 21 * Second) (runningTxAt (stuckWorld 11))"
    by (simp only: time_Since_threshold) (simp add: stuckWorld_fields Second_def)
  from deadlockCheck_stuck [OF stuckWorld_fields(1) this]
  show ?thesis by (simp add: panicked_def worldAfter_def stuckWorld_fields)
qed

text \<open>
  C1 (amended): when a check finds a stuck transaction it panics, having dequeued
  transactions from the front of the queue, among them the first eleven that were
  waiting (all of them when fewer were waiting). The traces of the first ten appear in
  the report, and of no later one: when more than ten were waiting the report has
  \<^verbatim>\<open>...\<close> on a line of its own, and replacing the transactions after the tenth
  by any others, as many, leaves the message the same.
\<close>

theorem drain_reports_first_ten:
  assumes "runningTx w \<noteq> None" and "20 * Second < time_Since now (runningTxAt w)"
  shows "panicked (deadlockCheck now w) \<and>
     (\<exists>k. chanBuf (queue (worldAfter (deadlockCheck now w))) = drop k (chanBuf (queue w)) \<and>
          min 11 (length (chanBuf (queue w))) \<le> k) \<and>
     (\<exists>m. panicMessage (deadlockCheck now w) = Some m \<and>
          (\<forall>p \<in> set (take 10 (chanBuf (queue w))). \<forall>t \<in> set (CallerInfo p). sublist t m) \<and>
          (10 < length (chanBuf (queue w)) \<longrightarrow> sublist ''\<newline>...'' m)) \<and>
     (\<forall>rest. length rest = length (chanBuf (queue w)) - 10 \<longrightarrow>
        panicMessage (deadlockCheck now
            (w\<lparr>queue := (queue w)\<lparr>chanBuf := take 10 (chanBuf (queue w)) @ rest\<rparr>\<rparr>))
          = panicMessage (deadlockCheck now w))"
proof -
  from assms(1) obtain tx where tx: "runningTx w = Some tx" by auto
  let ?buf = "chanBuf (queue w)"
  have c: "deadlockCheck now w =
     Panic (DeadlockDetected (deadlockReport (Name w) ?buf tx))
       (w\<lparr>queue := (queue w)\<lparr>chanBuf := []\<rparr>\<rparr>)"
    using tx assms(2) by (rule deadlockCheck_stuck)
  have 1: "panicked (deadlockCheck now w)" by (simp add: c panicked_def)
  have "chanBuf (queue (worldAfter (deadlockCheck now w))) = drop (length ?buf) ?buf"
    by (simp add: c worldAfter_def)
  then have 2: "\<exists>k. chanBuf (queue (worldAfter (deadlockCheck now w))) = drop k ?buf \<and>
          min 11 (length ?buf) \<le> k"
    by (intro exI [of _ "length ?buf"]) simp
  have m: "panicMessage (deadlockCheck now w) = Some (deadlockReport (Name w) ?buf tx)"
    by (simp add: c panicMessage_def)
  have first: "\<forall>p \<in> set (take 10 ?buf). \<forall>t \<in> set (CallerInfo p).
          sublist t (deadlockReport (Name w) ?buf tx)"
  proof (intro ballI)
    fix p t assume "p \<in> set (take 10 ?buf)" and "t \<in> set (CallerInfo p)"
    then have "sublist t (pendingReport 0 ?buf)"
      using pendingReport_sublist [of p 0 ?buf t] by simp
    then show "sublist t (deadlockReport (Name w) ?buf tx)"
      by (rule deadlockReport_pending)
  qed
  have dots: "10 < length ?buf \<longrightarrow> sublist ''\<newline>...'' (deadlockReport (Name w) ?buf tx)"
    by (intro impI deadlockReport_pending pendingReport_ellipsis)
  from m first dots have 3: "\<exists>m. panicMessage (deadlockCheck now w) = Some m \<and>
          (\<forall>p \<in> set (take 10 ?buf). \<forall>t \<in> set (CallerInfo p). sublist t m) \<and>
          (10 < length ?buf \<longrightarrow> sublist ''\<newline>...'' m)" by blast
  have 4: "\<forall>rest. length rest = length ?buf - 10 \<longrightarrow>
        panicMessage (deadlockCheck now (w\<lparr>queue := (queue w)\<lparr>chanBuf := take 10 ?buf @ rest\<rparr>\<rparr>))
          = panicMessage (deadlockCheck now w)"
  proof (intro allI impI)
    fix rest :: "transaction list"
    assume l: "length rest = length ?buf - 10"
    let ?w2 = "w\<lparr>queue := (queue w)\<lparr>chanBuf := take 10 ?buf @ rest\<rparr>\<rparr>"
    have "deadlockCheck now ?w2 =
       Panic (DeadlockDetected (deadlockReport (Name ?w2) (chanBuf (queue ?w2)) tx))
         (?w2\<lparr>queue := (queue ?w2)\<lparr>chanBuf := []\<rparr>\<rparr>)"
      using tx assms(2) by (intro deadlockCheck_stuck) simp_all
    then have "panicMessage (deadlockCheck now ?w2)
        = Some (deadlockReport (Name w) (take 10 ?buf @ rest) tx)"
      by (simp add: panicMessage_def)
    also have "deadlockReport (Name w) (take 10 ?buf @ rest) tx = deadlockReport (Name w) ?buf tx"
      by (simp only: deadlockReport_def pendingReport_first_ten [OF l])
    finally show "panicMessage (deadlockCheck now ?w2) = panicMessage (deadlockCheck now w)"
      by (simp add: m)
  qed
  from 1 2 3 4 show ?thesis by blast
qed

theorem drain_reports_first_ten_witness:
  "panicked (deadlockCheck (5 + 21 * Second) (stuckWorld 12)) \<and>
   (\<exists>k. chanBuf (queue (worldAfter (deadlockCheck (5 + 21 * Second) (stuckWorld 12))))
           = drop k (chanBuf (queue (stuckWorld 12))) \<and> 11 \<le> k) \<and>
   (\<exists>m. panicMessage (deadlockCheck (5 + 21 * Second) (stuckWorld 12)) = Some m \<and>
        sublist ''f10 at world.go:1'' m \<and> sublist ''\<newline>...'' m) \<and>
   panicMessage (deadlockCheck (5 + 21 * Second)
       ((stuckWorld 12)\<lparr>queue := (queue (stuckWorld 12))\<lparr>chanBuf :=
           take 10 (chanBuf (queue (stuckWorld 12))) @ [exampleTx 98, exampleTx 99]\<rparr>\<rparr>))
     = panicMessage (deadlockCheck (5 + 21 * Second) (stuckWorld 12))"
proof -
  have a: "runningTx (stuckWorld 12) \<noteq> None" by (simp add: stuckWorld_fields)
  have b: "20 * Second < time_Since (5 + 21 * Second) (runningTxAt (stuckWorld 12))"
    by (simp only: time_Since_threshold) (simp add: stuckWorld_fields Second_def)
  have l: "length (chanBuf (queue (stuckWorld 12))) = 12" by (simp add: stuckWorld_fields)
  have p: "exampleTx 10 \<in> set (take 10 (chanBuf (queue (stuckWorld 12))))"
    by (simp add: stuckWorld_fields take_map)
  have t: "''f10 at world.go:1'' \<in> set (CallerInfo (exampleTx 10))"
  proof -
    have "decimal 10 = ''10''"
      by (subst decimal.simps) (simp add: decimal_digit)
    then show ?thesis by (simp add: exampleTx_CallerInfo)
  qed
  have r: "length [exampleTx 98, exampleTx 99] = length (chanBuf (queue (stuckWorld 12))) - 10"
    by (simp add: l)
  note inst = drain_reports_first_ten [OF a b]
  from inst have c1: "panicked (deadlockCheck (5 + 21 * Second) (stuckWorld 12))" by (rule conjunct1)
  from inst have "\<exists>k. chanBuf (queue (worldAfter (deadlockCheck (5 + 21 * Second) (stuckWorld 12))))
           = drop k (chanBuf (queue (stuckWorld 12))) \<and>
           min 11 (length (chanBuf (queue (stuckWorld 12)))) \<le> k"
    by (rule conjunct2 [THEN conjunct1])
  then have c2: "\<exists>k. chanBuf (queue (worldAfter (deadlockCheck (5 + 21 * Second) (stuckWorld 12))))
           = drop k (chanBuf (queue (stuckWorld 12))) \<and> 11 \<le> k"
    by (simp only: l) simp
  from inst obtain m where m: "panicMessage (deadlockCheck (5 + 21 * Second) (stuckWorld 12)) = Some m"
    and all: "\<forall>p \<in> set (take 10 (chanBuf (queue (stuckWorld 12)))). \<forall>t \<in> set (CallerInfo p). sublist t m"
    and dots: "10 < length (chanBuf (queue (stuckWorld 12))) \<longrightarrow> sublist ''\<newline>...'' m"
    by blast
  from all p t have "sublist ''f10 at world.go:1'' m" by blast
  moreover from dots l have "sublist ''\<newline>...'' m" by simp
  ultimately have c3: "\<exists>m. panicMessage (deadlockCheck (5 + 21 * Second) (stuckWorld 12)) = Some m \<and>
        sublist ''f10 at world.go:1'' m \<and> sublist ''\<newline>...'' m" using m by blast
  from inst have "\<forall>rest. length rest = length (chanBuf (queue (stuckWorld 12))) - 10 \<longrightarrow>
        panicMessage (deadlockCheck (5 + 21 * Second)
            ((stuckWorld 12)\<lparr>queue := (queue (stuckWorld 12))\<lparr>chanBuf :=
                take 10 (chanBuf (queue (stuckWorld 12))) @ rest\<rparr>\<rparr>))
          = panicMessage (deadlockCheck (5 + 21 * Second) (stuckWorld 12))"
    by (rule conjunct2 [THEN conjunct2, THEN conjunct2])
  from this [rule_format, OF r] have c4: "panicMessage (deadlockCheck (5 + 21 * Second)
       ((stuckWorld 12)\<lparr>queue := (queue (stuckWorld 12))\<lparr>chanBuf :=
           take 10 (chanBuf (queue (stuckWorld 12))) @ [exampleTx 98, exampleTx 99]\<rparr>\<rparr>))
     = panicMessage (deadlockCheck (5 + 21 * Second) (stuckWorld 12))" .
  from c1 c2 c3 c4 show ?thesis by (intro conjI)
qed

text \<open>
  C2 (as stated, refuted): the message does not carry the elapsed running time. A check
  made 37 seconds after the recorded start and one made an hour after it panic with the
  same message, and the digits 37 occur nowhere in it.
\<close>

theorem deadlock_report_elapsed_counterexample:
  "time_Since (5 + 37 * Second) (runningTxAt (stuckWorld 1)) = 37 * Second \<and>
   time_Since (5 + 3600 * Second) (runningTxAt (stuckWorld 1)) = 3600 * Second \<and>
   panicMessage (deadlockCheck (5 + 37 * Second) (stuckWorld 1)) =
     Some ''Deadlock detected in world transaction. The transaction has been running for more than 20 seconds.\<newline>\<newline>WORLD NAME: World\<newline>\<newline>PENDING TRANSACTIONS:\<newline>\<newline>TX NO 1:\<newline>------------------ BEGIN stack trace ------------------\<newline>f1 at world.go:1\<newline>g at main.go:2\<newline>------------------- END stack trace -------------------\<newline>\<newline>HANGING TRANSACTION:\<newline>------------------ BEGIN stack trace ------------------\<newline>f0 at world.go:1\<newline>g at main.go:2\<newline>------------------- END stack trace -------------------'' \<and>
   panicMessage (deadlockCheck (5 + 3600 * Second) (stuckWorld 1)) =
     panicMessage (deadlockCheck (5 + 37 * Second) (stuckWorld 1)) \<and>
   \<not> sublist ''37'' ''Deadlock detected in world transaction. The transaction has been running for more than 20 seconds.\<newline>\<newline>WORLD NAME: World\<newline>\<newline>PENDING TRANSACTIONS:\<newline>\<newline>TX NO 1:\<newline>------------------ BEGIN stack trace ------------------\<newline>f1 at world.go:1\<newline>g at main.go:2\<newline>------------------- END stack trace -------------------\<newline>\<newline>HANGING TRANSACTION:\<newline>------------------ BEGIN stack trace ------------------\<newline>f0 at world.go:1\<newline>g at main.go:2\<newline>------------------- END stack trace -------------------''"
proof -
  have s1: "time_Since (5 + 37 * Second) (runningTxAt (stuckWorld 1)) = 37 * Second"
    by (simp add: time_Since_def stuckWorld_fields Second_def maxDuration_def minDuration_def)
  have s2: "time_Since (5 + 3600 * Second) (runningTxAt (stuckWorld 1)) = 3600 * Second"
    by (simp add: time_Since_def stuckWorld_fields Second_def maxDuration_def minDuration_def)
  have t1: "20 * Second < time_Since (5 + 37 * Second) (runningTxAt (stuckWorld 1))"
    by (simp only: s1) (simp add: Second_def)
  have t2: "20 * Second < time_Since (5 + 3600 * Second) (runningTxAt (stuckWorld 1))"
    by (simp only: s2) (simp add: Second_def)
  have m1: "panicMessage (deadlockCheck (5 + 37 * Second) (stuckWorld 1)) =
      Some (deadlockReport (Name (stuckWorld 1)) (chanBuf (queue (stuckWorld 1))) (exampleTx 0))"
    using deadlockCheck_stuck [OF stuckWorld_fields(1) t1] by (simp add: panicMessage_def)
  have m2: "panicMessage (deadlockCheck (5 + 3600 * Second) (stuckWorld 1)) =
      Some (deadlockReport (Name (stuckWorld 1)) (chanBuf (queue (stuckWorld 1))) (exampleTx 0))"
    using deadlockCheck_stuck [OF stuckWorld_fields(1) t2] by (simp add: panicMessage_def)
  have n: "\<not> sublist ''37'' ''Deadlock detected in world transaction. The transaction has been running for more than 20 seconds.\<newline>\<newline>WORLD NAME: World\<newline>\<newline>PENDING TRANSACTIONS:\<newline>\<newline>TX NO 1:\<newline>------------------ BEGIN stack trace ------------------\<newline>f1 at world.go:1\<newline>g at main.go:2\<newline>------------------- END stack trace -------------------\<newline>\<newline>HANGING TRANSACTION:\<newline>------------------ BEGIN stack trace ------------------\<newline>f0 at world.go:1\<newline>g at main.go:2\<newline>------------------- END stack trace -------------------''"
    by code_simp
  from s1 s2 m1 m2 n show ?thesis by (simp only: stuckWorld_1_report) simp
qed

text \<open>
  C2 (amended): when a check finds a stuck transaction, its panic message contains the
  world's name after \<^verbatim>\<open>WORLD NAME: \<close>, every line of the caller information of
  the stuck transaction, every line of the caller information of each of the first ten
  pending transactions, and the fixed sentence that the transaction has been running for
  more than 20 seconds. The measured elapsed time is not part of it: every check that
  finds the transaction stuck yields the same message.
\<close>

theorem deadlock_report_contents:
  assumes "runningTx w = Some tx" and "20 * Second < time_Since now (runningTxAt w)"
  shows "\<exists>m. panicMessage (deadlockCheck now w) = Some m \<and>
      sublist (''WORLD NAME: '' @ Name w) m \<and>
      sublist ''The transaction has been running for more than 20 seconds.'' m \<and>
      (\<forall>t \<in> set (CallerInfo tx). sublist t m) \<and>
      (\<forall>p \<in> set (take 10 (chanBuf (queue w))). \<forall>t \<in> set (CallerInfo p). sublist t m) \<and>
      (\<forall>now'. 20 * Second < time_Since now' (runningTxAt w) \<longrightarrow>
          panicMessage (deadlockCheck now' w) = Some m)"
proof -
  let ?buf = "chanBuf (queue w)"
  let ?m = "deadlockReport (Name w) ?buf tx"
  have m: "\<And>t. 20 * Second < time_Since t (runningTxAt w) \<Longrightarrow>
      panicMessage (deadlockCheck t w) = Some ?m"
    using deadlockCheck_stuck [OF assms(1)] by (simp add: panicMessage_def)
  have 1: "sublist (''WORLD NAME: '' @ Name w) ?m"
    unfolding deadlockReport_def
    using sublist_in_append3 [of "''WORLD NAME: '' @ Name w"
        "''Deadlock detected in world transaction. The transaction has been running for more than 20 seconds.'' @ ''\<newline>\<newline>''"
        "''\<newline>\<newline>PENDING TRANSACTIONS:'' @ pendingReport 0 ?buf @
         ''\<newline>\<newline>HANGING TRANSACTION:'' @
         ''\<newline>------------------ BEGIN stack trace ------------------'' @
         traceLines (CallerInfo tx) @
         ''\<newline>------------------- END stack trace -------------------''"]
    by simp
  have 2: "sublist ''The transaction has been running for more than 20 seconds.'' ?m"
    unfolding deadlockReport_def
    using sublist_in_append3 [of "''The transaction has been running for more than 20 seconds.''"
        "''Deadlock detected in world transaction. ''"
        "''\<newline>\<newline>WORLD NAME: '' @ Name w @
         ''\<newline>\<newline>PENDING TRANSACTIONS:'' @ pendingReport 0 ?buf @
         ''\<newline>\<newline>HANGING TRANSACTION:'' @
         ''\<newline>------------------ BEGIN stack trace ------------------'' @
         traceLines (CallerInfo tx) @
         ''\<newline>------------------- END stack trace -------------------''"]
    by simp
  have 3: "\<forall>t \<in> set (CallerInfo tx). sublist t ?m"
  proof
    fix t assume "t \<in> set (CallerInfo tx)"
    then have "sublist t (traceLines (CallerInfo tx))" by (rule traceLines_sublist)
    then show "sublist t ?m"
      unfolding deadlockReport_def
      using sublist_in_append [of t "traceLines (CallerInfo tx)"
        "''Deadlock detected in world transaction. The transaction has been running for more than 20 seconds.'' @
         ''\<newline>\<newline>WORLD NAME: '' @ Name w @
         ''\<newline>\<newline>PENDING TRANSACTIONS:'' @ pendingReport 0 ?buf @
         ''\<newline>\<newline>HANGING TRANSACTION:'' @
         ''\<newline>------------------ BEGIN stack trace ------------------''"
        "''\<newline>------------------- END stack trace -------------------''"]
      by simp
  qed
  have 4: "\<forall>p \<in> set (take 10 ?buf). \<forall>t \<in> set (CallerInfo p). sublist t ?m"
  proof (intro ballI)
    fix p t assume "p \<in> set (take 10 ?buf)" and "t \<in> set (CallerInfo p)"
    then have "sublist t (pendingReport 0 ?buf)"
      using pendingReport_sublist [of p 0 ?buf t] by simp
    then show "sublist t ?m"
      unfolding deadlockReport_def
      using sublist_in_append [of t "pendingReport 0 ?buf"
          "''Deadlock detected in world transaction. The transaction has been running for more than 20 seconds.'' @
           ''\<newline>\<newline>WORLD NAME: '' @ Name w @ ''\<newline>\<newline>PENDING TRANSACTIONS:''"
          "''\<newline>\<newline>HANGING TRANSACTION:'' @
           ''\<newline>------------------ BEGIN stack trace ------------------'' @
           traceLines (CallerInfo tx) @
           ''\<newline>------------------- END stack trace -------------------''"]
      by simp
  qed
  from m [OF assms(2)] m 1 2 3 4 show ?thesis by blast
qed


theorem deadlock_report_contents_witness:
  "\<exists>m. panicMessage (deadlockCheck (5 + 37 * Second) (stuckWorld 1)) = Some m \<and>
     sublist ''WORLD NAME: World'' m \<and>
     sublist ''f0 at world.go:1'' m \<and>
     sublist ''f1 at world.go:1'' m \<and>
     panicMessage (deadlockCheck (5 + 3600 * Second) (stuckWorld 1)) = Some m"
proof -
  have t1: "20 * Second < time_Since (5 + 37 * Second) (runningTxAt (stuckWorld 1))"
    by (simp only: time_Since_threshold) (simp add: stuckWorld_fields Second_def)
  have t2: "20 * Second < time_Since (5 + 3600 * Second) (runningTxAt (stuckWorld 1))"
    by (simp only: time_Since_threshold) (simp add: stuckWorld_fields Second_def)
  from deadlock_report_contents [OF stuckWorld_fields(1) t1]
  obtain m where m: "panicMessage (deadlockCheck (5 + 37 * Second) (stuckWorld 1)) = Some m"
    and nm: "sublist (''WORLD NAME: '' @ Name (stuckWorld 1)) m"
    and hung: "\<forall>t \<in> set (CallerInfo (exampleTx 0)). sublist t m"
    and pend: "\<forall>p \<in> set (take 10 (chanBuf (queue (stuckWorld 1)))).
                 \<forall>t \<in> set (CallerInfo p). sublist t m"
    and indep: "\<forall>now'. 20 * Second < time_Since now' (runningTxAt (stuckWorld 1)) \<longrightarrow>
                 panicMessage (deadlockCheck now' (stuckWorld 1)) = Some m"
    by blast
  from nm have 1: "sublist ''WORLD NAME: World'' m" by (simp add: stuckWorld_fields)
  have "''f0 at world.go:1'' \<in> set (CallerInfo (exampleTx 0))"
    by (simp add: exampleTx_CallerInfo decimal_0)
  with hung have 2: "sublist ''f0 at world.go:1'' m" by blast
  have "exampleTx 1 \<in> set (take 10 (chanBuf (queue (stuckWorld 1))))"
    by (simp add: stuckWorld_fields)
  moreover have "''f1 at world.go:1'' \<in> set (CallerInfo (exampleTx 1))"
    by (simp add: exampleTx_CallerInfo decimal_1)
  ultimately have 3: "sublist ''f1 at world.go:1'' m" using pend by blast
  from indep t2 have 4: "panicMessage (deadlockCheck (5 + 3600 * Second) (stuckWorld 1)) = Some m"
    by blast
  from m 1 2 3 4 show ?thesis by blast
qed

section \<open>The running-task counter\<close>

lemma taskExit_running:
  "0 < running w \<Longrightarrow> taskExit t w = Some (w\<lparr>running := running w - 1\<rparr>)"
  by (cases t) (simp_all add: taskExit_def wg_Done_def wg_Add_def)

lemma exitAll_running:
  "int (length ts) \<le> running w \<Longrightarrow>
   exitAll ts w = Some (w\<lparr>running := running w - int (length ts)\<rparr>)"
proof (induction ts arbitrary: w)
  case Nil
  then show ?case by simp
next
  case (Cons t ts)
  then have "0 < running w" by simp
  then have e: "taskExit t w = Some (w\<lparr>running := running w - 1\<rparr>)" by (rule taskExit_running)
  from Cons.prems have "int (length ts) \<le> running (w\<lparr>running := running w - 1\<rparr>)" by simp
  from Cons.IH [OF this] e show ?case by (simp add: algebra_simps)
qed

lemma distinct_subset_length:
  assumes "distinct ts" and "set ts \<subseteq> set gs" and "distinct gs"
  shows "length ts \<le> length gs \<and> (length ts = length gs) = (set ts = set gs)"
proof -
  have c: "card (set ts) = length ts" "card (set gs) = length gs"
    using assms by (simp_all add: distinct_card)
  have "card (set ts) \<le> card (set gs)" using assms(2) by (simp add: card_mono)
  moreover have "(card (set ts) = card (set gs)) = (set ts = set gs)"
    using assms(2) by (metis card_subset_eq List.finite_set)
  ultimately show ?thesis using c by simp
qed

text \<open>
  C9: \<^verbatim>\<open>New\<close> always returns, having started exactly four goroutines, the tick
  loop, the auto-save worker, the executor and the watchdog, in that order, in a state in
  which the running-task counter has already been raised by 4: the world it creates has
  the counter 4. The watchdog, on the closing channel, lowers the counter by 1 and
  returns. When each task lowers the counter by 1 as it exits, then after any tasks among
  the four have exited, each once, the counter is 4 less their number, and it is zero
  exactly when all four have exited.
\<close>

theorem New_starts_four_tasks:
  "\<exists>w st' gs. New e nm c st = Inr (w, st', gs) \<and>
     running w = 4 \<and>
     gs = [TickLoop \<lparr>interval = 50000000\<rparr>, AutoSave, HandleTransactions, Watchdog] \<and>
     (\<forall>w0. startTasks w0 = foldl go_stmt (wg_Add 4 w0, []) gs) \<and>
     watchdog [ClosingC w] = Exited (w\<lparr>running := 3\<rparr>) \<and>
     (\<forall>ts. distinct ts \<and> set ts \<subseteq> set gs \<longrightarrow>
        (\<exists>w'. exitAll ts w = Some w' \<and> running w' = 4 - int (length ts) \<and>
              (running w' = 0) = (set ts = set gs)))"
proof -
  let ?gs = "[TickLoop \<lparr>interval = 50000000\<rparr>, AutoSave, HandleTransactions, Watchdog]"
  obtain w0 st' where nw: "newWorld e nm c st = Inr (w0, st')" and r0: "running w0 = 0"
    using newWorld_returns [of e nm c st] by simp
  let ?w = "w0\<lparr>running := 4\<rparr>"
  have sec: "Second div 20 = 50000000" by (simp add: Second_def)
  have n: "New e nm c st = Inr (?w, st', ?gs)"
    using nw r0 by (simp add: New_def startTasks_eq sec)
  have 1: "running ?w = 4" by simp
  have 2: "\<forall>w0. startTasks w0 = foldl go_stmt (wg_Add 4 w0, []) ?gs"
    by (simp add: startTasks_def go_stmt_def Let_def sec)
  have 3: "watchdog [ClosingC ?w] = Exited (?w\<lparr>running := 3\<rparr>)"
    by (simp add: wg_Done_def wg_Add_def)
  have 4: "\<forall>ts. distinct ts \<and> set ts \<subseteq> set ?gs \<longrightarrow>
        (\<exists>w'. exitAll ts ?w = Some w' \<and> running w' = 4 - int (length ts) \<and>
              (running w' = 0) = (set ts = set ?gs))"
  proof (intro allI impI)
    fix ts assume a: "distinct ts \<and> set ts \<subseteq> set ?gs"
    have "distinct ?gs" by simp
    with a have l: "length ts \<le> length ?gs \<and> (length ts = length ?gs) = (set ts = set ?gs)"
      by (intro distinct_subset_length) simp_all
    then have "int (length ts) \<le> running ?w" by simp
    then have "exitAll ts ?w = Some (?w\<lparr>running := running ?w - int (length ts)\<rparr>)"
      by (rule exitAll_running)
    moreover have "(4 - int (length ts) = 0) = (set ts = set ?gs)"
      using l by auto
    ultimately show "\<exists>w'. exitAll ts ?w = Some w' \<and> running w' = 4 - int (length ts) \<and>
              (running w' = 0) = (set ts = set ?gs)" by simp
  qed
  from n 1 2 3 4 show ?thesis by blast
qed

theorem New_starts_four_tasks_witness:
  "\<exists>w st' gs. New env0 ''overworld'' zeroConfig store0 = Inr (w, st', gs) \<and>
     running w = 4 \<and> length gs = 4 \<and>
     (\<exists>w'. exitAll [Watchdog, AutoSave, HandleTransactions] w = Some w' \<and> running w' = 1) \<and>
     (\<exists>w'. exitAll [Watchdog, AutoSave, HandleTransactions, TickLoop \<lparr>interval = 50000000\<rparr>] w
              = Some w' \<and> running w' = 0)"
proof -
  let ?gs = "[TickLoop \<lparr>interval = 50000000\<rparr>, AutoSave, HandleTransactions, Watchdog]"
  from New_starts_four_tasks [of env0 "''overworld''" zeroConfig store0]
  obtain w st' where n: "New env0 ''overworld'' zeroConfig store0 = Inr (w, st', ?gs)"
    and r: "running w = 4"
    and x: "\<forall>ts. distinct ts \<and> set ts \<subseteq> set ?gs \<longrightarrow>
        (\<exists>w'. exitAll ts w = Some w' \<and> running w' = 4 - int (length ts) \<and>
              (running w' = 0) = (set ts = set ?gs))"
    by blast
  have d1: "distinct [Watchdog, AutoSave, HandleTransactions] \<and>
        set [Watchdog, AutoSave, HandleTransactions] \<subseteq> set ?gs" by simp
  from x [rule_format, OF d1] obtain w1 where
    "exitAll [Watchdog, AutoSave, HandleTransactions] w = Some w1"
    "running w1 = 4 - int (length [Watchdog, AutoSave, HandleTransactions])" by blast
  then have a: "\<exists>w'. exitAll [Watchdog, AutoSave, HandleTransactions] w = Some w' \<and> running w' = 1"
    by simp
  have d2: "distinct [Watchdog, AutoSave, HandleTransactions, TickLoop \<lparr>interval = 50000000\<rparr>] \<and>
        set [Watchdog, AutoSave, HandleTransactions, TickLoop \<lparr>interval = 50000000\<rparr>] \<subseteq> set ?gs"
    by simp
  from x [rule_format, OF d2] obtain w2 where
    "exitAll [Watchdog, AutoSave, HandleTransactions, TickLoop \<lparr>interval = 50000000\<rparr>] w = Some w2"
    "running w2 = 4 - int (length [Watchdog, AutoSave, HandleTransactions,
        TickLoop \<lparr>interval = 50000000\<rparr>])" by blast
  then have b: "\<exists>w'. exitAll [Watchdog, AutoSave, HandleTransactions,
        TickLoop \<lparr>interval = 50000000\<rparr>] w = Some w' \<and> running w' = 0"
    by simp
  have l: "length ?gs = 4" by simp
  from n r l a b show ?thesis by blast
qed

section \<open>The first tick\<close>

lemma sysInv_init:
  "chanBuf (queue w) = [] \<Longrightarrow> runningTx w = None \<Longrightarrow> sysInv (sysAtExec w)"
  by (simp add: sysInv_def sysAtExec_def txSet_def)

lemma Exec_Some:
  assumes "Exec info s = Some (tx, s')"
  shows "txChan tx = nextChan s" and "nextChan s' = Suc (nextChan s)"
    and "txSet s' = insert tx (txSet s)" and "executed s' = executed s"
    and "closedChans s' = closedChans s" and "newPc s' = newPc s" and "newTx s' = newTx s"
  using assms
  by (auto simp add: Exec_def chan_send_def Let_def txSet_def split: if_splits)

lemma sysInv_Exec:
  assumes "sysInv s" and "Exec info s = Some (tx, s')"
  shows "sysInv s'"
proof -
  note e = Exec_Some [OF assms(2)]
  from assms(1) have lt: "\<forall>t \<in> txSet s. txChan t < nextChan s"
    and inj: "inj_on txChan (txSet s)"
    and cl: "\<forall>c \<in> closedChans s. c \<in> txChan ` set (executed s)"
    by (simp_all add: sysInv_def)
  have 1: "\<forall>t \<in> txSet s'. txChan t < nextChan s'" using lt e by auto
  have "txChan tx \<notin> txChan ` txSet s" using lt e(1) by auto
  then have 2: "inj_on txChan (txSet s')" using inj e(3) by auto
  have 3: "\<forall>c \<in> closedChans s'. c \<in> txChan ` set (executed s')" using cl e by simp
  have 4: "(case newPc s' of
         AtExec \<Rightarrow> True
       | Awaiting c \<Rightarrow> (\<exists>tx \<in> txSet s'. newTx s' = Some tx \<and> txChan tx = c)
       | Returned \<Rightarrow> (\<exists>tx \<in> set (executed s'). newTx s' = Some tx))"
    using assms(1) e by (auto simp add: sysInv_def split: pc.splits)
  from 1 2 3 4 show ?thesis by (simp add: sysInv_def)
qed


lemma sysInv_step:
  assumes "sysInv s" and "step a s = Some s'"
  shows "sysInv s'"
proof (cases a)
  case (NewExec info)
  with assms(2) obtain tx s1 where pc: "newPc s = AtExec" and e: "Exec info s = Some (tx, s1)"
    and s': "s' = s1\<lparr>newPc := Awaiting (txChan tx), newTx := Some tx\<rparr>"
    by (auto split: if_splits option.splits)
  from sysInv_Exec [OF assms(1) e] have i: "sysInv s1" .
  have "tx \<in> txSet s1" using Exec_Some(3) [OF e] by simp
  with i s' show ?thesis by (simp add: sysInv_def txSet_def)
next
  case (Submit info)
  with assms(2) obtain tx where "Exec info s = Some (tx, s')"
    by (auto split: option.splits)
  with assms(1) show ?thesis by (rule sysInv_Exec)
next
  case (ExecutorBegin now)
  with assms(2) obtain tx txs where r: "runningTx (sysWorld s) = None"
    and b: "chanBuf (queue (sysWorld s)) = tx # txs"
    and s': "s' = s\<lparr>sysWorld := (sysWorld s)\<lparr>queue := (queue (sysWorld s))\<lparr>chanBuf := txs\<rparr>,
                     runningTx := Some tx, runningTxAt := now\<rparr>\<rparr>"
    by (auto simp add: try_recv_def split: option.splits list.splits)
  have sub: "txSet s' \<subseteq> txSet s" using r b s' by (auto simp add: txSet_def)
  have same: "txSet s' \<union> {tx} = txSet s \<union> {tx}" "tx \<in> txSet s'" "tx \<in> txSet s"
    using r b s' by (auto simp add: txSet_def)
  then have eq: "txSet s' = txSet s" by blast
  have rest: "nextChan s' = nextChan s" "closedChans s' = closedChans s"
    "executed s' = executed s" "newPc s' = newPc s" "newTx s' = newTx s"
    using s' by simp_all
  from assms(1) show ?thesis unfolding sysInv_def eq rest .
next
  case ExecutorEnd
  with assms(2) obtain tx where r: "runningTx (sysWorld s) = Some tx"
    and s': "s' = s\<lparr>sysWorld := (sysWorld s)\<lparr>runningTx := None\<rparr>,
                     executed := executed s @ [tx],
                     closedChans := insert (txChan tx) (closedChans s)\<rparr>"
    by (auto split: option.splits)
  have eq: "txSet s' = txSet s" using r s' by (auto simp add: txSet_def)
  have rest: "nextChan s' = nextChan s" "newPc s' = newPc s" "newTx s' = newTx s"
    "set (executed s') = insert tx (set (executed s))"
    "closedChans s' = insert (txChan tx) (closedChans s)"
    using s' by simp_all
  from assms(1) have lt: "\<forall>t \<in> txSet s. txChan t < nextChan s"
    and inj: "inj_on txChan (txSet s)"
    and cl: "\<forall>c \<in> closedChans s. c \<in> txChan ` set (executed s)"
    and pcs: "(case newPc s of
         AtExec \<Rightarrow> True
       | Awaiting c \<Rightarrow> (\<exists>tx \<in> txSet s. newTx s = Some tx \<and> txChan tx = c)
       | Returned \<Rightarrow> (\<exists>tx \<in> set (executed s). newTx s = Some tx))"
    by (simp_all add: sysInv_def)
  have 3: "\<forall>c \<in> closedChans s'. c \<in> txChan ` set (executed s')"
    using cl rest by auto
  have 4: "(case newPc s' of
         AtExec \<Rightarrow> True
       | Awaiting c \<Rightarrow> (\<exists>tx \<in> txSet s'. newTx s' = Some tx \<and> txChan tx = c)
       | Returned \<Rightarrow> (\<exists>tx \<in> set (executed s'). newTx s' = Some tx))"
    using pcs rest eq by (auto split: pc.splits)
  from lt inj 3 4 show ?thesis unfolding sysInv_def eq rest(1) by simp
next
  case NewReturn
  with assms(2) obtain c where pc: "newPc s = Awaiting c" and cc: "c \<in> closedChans s"
    and s': "s' = s\<lparr>newPc := Returned\<rparr>"
    by (auto split: pc.splits if_splits)
  from assms(1) have lt: "\<forall>t \<in> txSet s. txChan t < nextChan s"
    and inj: "inj_on txChan (txSet s)"
    and cl: "\<forall>c \<in> closedChans s. c \<in> txChan ` set (executed s)"
    by (simp_all add: sysInv_def)
  from assms(1) pc obtain tx where tx: "tx \<in> txSet s" "newTx s = Some tx" "txChan tx = c"
    by (auto simp add: sysInv_def)
  from cl cc obtain tx' where tx': "tx' \<in> set (executed s)" "txChan tx' = c" by auto
  then have "tx' \<in> txSet s" by (simp add: txSet_def)
  with inj tx tx' have "tx' = tx" by (auto dest: inj_onD)
  with tx' tx have "\<exists>tx \<in> set (executed s). newTx s = Some tx" by blast
  with lt inj cl s' show ?thesis by (simp add: sysInv_def txSet_def)
qed

lemma sysInv_run:
  "sysInv s \<Longrightarrow> run as s = Some s' \<Longrightarrow> sysInv s'"
proof (induction as arbitrary: s)
  case Nil
  then show ?case by simp
next
  case (Cons a as)
  from Cons.prems(2) obtain s1 where s1: "step a s = Some s1" and r: "run as s1 = Some s'"
    by (auto split: option.splits)
  from sysInv_step [OF Cons.prems(1) s1] have "sysInv s1" .
  from Cons.IH [OF this r] show ?case .
qed

lemma step_frame:
  assumes "step a s = Some s'"
  shows "(sysWorld s')\<lparr>queue := queue w0, runningTx := runningTx w0, runningTxAt := runningTxAt w0\<rparr>
       = (sysWorld s)\<lparr>queue := queue w0, runningTx := runningTx w0, runningTxAt := runningTxAt w0\<rparr>"
    and "chanCap (queue (sysWorld s')) = chanCap (queue (sysWorld s))"
  using assms
  by (cases a;
      auto simp add: Exec_def chan_send_def try_recv_def Let_def
           split: if_splits option.splits list.splits pc.splits)+

lemma run_frame:
  "run as s = Some s' \<Longrightarrow>
   (sysWorld s')\<lparr>queue := queue w0, runningTx := runningTx w0, runningTxAt := runningTxAt w0\<rparr>
       = (sysWorld s)\<lparr>queue := queue w0, runningTx := runningTx w0, runningTxAt := runningTxAt w0\<rparr> \<and>
   chanCap (queue (sysWorld s')) = chanCap (queue (sysWorld s))"
proof (induction as arbitrary: s)
  case Nil
  then show ?case by simp
next
  case (Cons a as)
  from Cons.prems obtain s1 where s1: "step a s = Some s1" and r: "run as s1 = Some s'"
    by (auto split: option.splits)
  from Cons.IH [OF r] step_frame(1) [OF s1, of w0] step_frame(2) [OF s1] show ?case by simp
qed

lemma New_world_fresh:
  assumes "New e nm c st = Inr (w, st', gs)"
  shows "chanBuf (queue w) = []" and "chanCap (queue w) = 128" and "runningTx w = None"
  using assms by (auto simp add: New_returns newWorld_returns make_chan_def)

lemma run_New_returns:
  assumes "chanBuf (queue w) = []" and "chanCap (queue w) = 128" and "runningTx w = None"
  shows "\<exists>s. run [NewExec info, ExecutorBegin t, ExecutorEnd, NewReturn] (sysAtExec w) = Some s \<and>
           newPc s = Returned \<and> executed s = [\<lparr>txChan = 0, CallerInfo = info\<rparr>]"
  using assms
  by (simp add: sysAtExec_def Exec_def chan_send_def try_recv_def Let_def)

text \<open>
  C10: from the state in which \<^verbatim>\<open>New\<close> reaches its last statement, in every run of
  the goroutines in which \<^verbatim>\<open>New\<close> has returned, the transaction it submitted with
  \<^verbatim>\<open>w.Exec(t.tick)\<close> has been executed; as long as that transaction has not been
  executed, \<^verbatim>\<open>New\<close> cannot return. The world is then the one \<^verbatim>\<open>New\<close>
  created, but for the contents of the queue and the record of the running transaction.
  And \<^verbatim>\<open>New\<close> can return: once it has submitted the transaction and the executor
  has run it, its wait ends.
\<close>

theorem New_waits_for_tick:
  assumes "New e nm c st = Inr (w, st', gs)"
  shows "(\<forall>acts s. run acts (sysAtExec w) = Some s \<longrightarrow>
            (newPc s = Returned \<longrightarrow> (\<exists>tx. newTx s = Some tx \<and> tx \<in> set (executed s))) \<and>
            ((\<forall>tx. newTx s = Some tx \<longrightarrow> tx \<notin> set (executed s)) \<longrightarrow>
               step NewReturn s = None) \<and>
            (sysWorld s)\<lparr>queue := queue w, runningTx := runningTx w,
                          runningTxAt := runningTxAt w\<rparr> = w \<and>
            chanCap (queue (sysWorld s)) = chanCap (queue w)) \<and>
         (\<exists>s. run [NewExec info, ExecutorBegin t, ExecutorEnd, NewReturn] (sysAtExec w) = Some s \<and>
            newPc s = Returned)"
proof (intro conjI allI impI)
  note f = New_world_fresh [OF assms]
  show "\<exists>s. run [NewExec info, ExecutorBegin t, ExecutorEnd, NewReturn] (sysAtExec w) = Some s \<and>
            newPc s = Returned"
    using run_New_returns [OF f, of info t] by blast
  fix acts s assume r: "run acts (sysAtExec w) = Some s"
  have "sysInv (sysAtExec w)" using f by (simp add: sysInv_init)
  from sysInv_run [OF this r] have i: "sysInv s" .
  from run_frame [OF r, of w]
  show "(sysWorld s)\<lparr>queue := queue w, runningTx := runningTx w,
                       runningTxAt := runningTxAt w\<rparr> = w"
    and "chanCap (queue (sysWorld s)) = chanCap (queue w)"
    by (simp_all add: sysAtExec_def)
  {
    assume "newPc s = Returned"
    with i show "\<exists>tx. newTx s = Some tx \<and> tx \<in> set (executed s)"
      by (auto simp add: sysInv_def)
  }
  {
    assume n: "\<forall>tx. newTx s = Some tx \<longrightarrow> tx \<notin> set (executed s)"
    show "step NewReturn s = None"
    proof (cases "newPc s")
      case AtExec
      then show ?thesis by simp
    next
      case Returned
      then show ?thesis by simp
    next
      case (Awaiting c)
      with i obtain tx where tx: "tx \<in> txSet s" "newTx s = Some tx" "txChan tx = c"
        by (auto simp add: sysInv_def)
      have "c \<notin> closedChans s"
      proof
        assume "c \<in> closedChans s"
        with i obtain tx' where tx': "tx' \<in> set (executed s)" "txChan tx' = c"
          by (auto simp add: sysInv_def)
        then have "tx' \<in> txSet s" by (simp add: txSet_def)
        moreover from i have "inj_on txChan (txSet s)" by (simp add: sysInv_def)
        ultimately have "tx' = tx" using tx tx' by (auto dest: inj_onD)
        with tx' tx n show False by blast
      qed
      with Awaiting show ?thesis by simp
    qed
  }
qed

theorem New_waits_for_tick_witness:
  "\<exists>w st' gs s. New env0 ''overworld'' zeroConfig store0 = Inr (w, st', gs) \<and>
     run [NewExec [''New at conf.go:162''], Submit [''tickLoop at tick.go:1''],
          ExecutorBegin 7, ExecutorEnd, NewReturn] (sysAtExec w) = Some s \<and>
     newPc s = Returned \<and>
     (\<exists>tx. newTx s = Some tx \<and> tx \<in> set (executed s))"
proof -
  obtain w st' gs where n: "New env0 ''overworld'' zeroConfig store0 = Inr (w, st', gs)"
    using New_returns [of env0 "''overworld''" zeroConfig store0] by blast
  note f = New_world_fresh [OF n]
  have "\<exists>s. run [NewExec [''New at conf.go:162''], Submit [''tickLoop at tick.go:1''],
          ExecutorBegin 7, ExecutorEnd, NewReturn] (sysAtExec w) = Some s \<and> newPc s = Returned"
    using f by (simp add: sysAtExec_def Exec_def chan_send_def try_recv_def Let_def)
  then obtain s where r: "run [NewExec [''New at conf.go:162''], Submit [''tickLoop at tick.go:1''],
          ExecutorBegin 7, ExecutorEnd, NewReturn] (sysAtExec w) = Some s"
    and p: "newPc s = Returned" by blast
  from New_waits_for_tick [OF n, of "[]" 0] r p
  have "\<exists>tx. newTx s = Some tx \<and> tx \<in> set (executed s)" by blast
  with n r p show ?thesis by blast
qed

end
